theory Spec2Isabelle
  imports Main "HOL-Library.Word"
begin

unbundle bit_operations_syntax

section \<open>The slab allocator (mm/slab.c): platform and constants\<close>

text \<open>
  The model is the production build (\<open>DEBUG 0\<close>, \<open>STATS 0\<close>) of the allocator on the
  configuration its comments describe: a 32-bit machine (\<open>BYTES_PER_WORD\<close> is 4, so
  \<open>size_t\<close>, \<open>unsigned long\<close>, \<open>unsigned int\<close> and \<open>int\<close> are all 32 bits wide), pages of
  4 kB (``512 (PAGE_SIZE>>3)'') and cache lines of 32 bytes (``L1_CACHE_BYTES'').
  C integers are 32-bit words: \<open>+\<close>, \<open>-\<close> and \<open>*\<close> wrap, \<open>div\<close> and the comparisons are
  unsigned. Addresses are natural numbers.
\<close>

type_synonym u32 = "32 word"

definition PAGE_SIZE :: u32 where
  "PAGE_SIZE = 4096"

definition BYTES_PER_WORD :: u32 where
  "BYTES_PER_WORD = 4"

definition cache_line_size :: u32 where
  "cache_line_size = 32"

text \<open>\<open>__alignof__(unsigned long long)\<close> is 8, so \<open>REDZONE_ALIGN\<close> is \<open>max(4, 8)\<close>.\<close>

definition REDZONE_ALIGN :: u32 where
  "REDZONE_ALIGN = max BYTES_PER_WORD 8"

definition ARCH_SLAB_MINALIGN :: u32 where
  "ARCH_SLAB_MINALIGN = 0"

text \<open>
  \<open>struct slab\<close> is a \<open>list_head\<close> (two pointers), \<open>colouroff\<close>, \<open>s_mem\<close>, \<open>inuse\<close>, \<open>free\<close>
  and a 16-bit \<open>nodeid\<close>: 26 bytes, padded to 28. A \<open>kmem_bufctl_t\<close> is an \<open>unsigned int\<close>.
\<close>

definition sizeof_slab :: u32 where
  "sizeof_slab = 28"

definition sizeof_bufctl :: u32 where
  "sizeof_bufctl = 4"

definition BUFCTL_END :: u32 where
  "BUFCTL_END = NOT 0 - 0"

definition SLAB_LIMIT :: u32 where
  "SLAB_LIMIT = NOT 0 - 3"

text \<open>
  \<open>MAX_ORDER\<close> is 11 and \<open>PAGE_SHIFT\<close> 12, so \<open>KMALLOC_SHIFT_HIGH\<close> is 22:
  \<open>KMALLOC_MAX_ORDER\<close> is 10 and \<open>KMALLOC_MAX_SIZE\<close> is \<open>PAGE_SIZE << 10\<close>.
\<close>

definition KMALLOC_MAX_ORDER :: nat where
  "KMALLOC_MAX_ORDER = 10"

definition KMALLOC_MAX_SIZE :: u32 where
  "KMALLOC_MAX_SIZE = push_bit KMALLOC_MAX_ORDER PAGE_SIZE"

definition BATCHREFILL_LIMIT :: int where
  "BATCHREFILL_LIMIT = 16"

text \<open>
  The flag word of a cache is a set of flags: \<open>flags & F\<close> is membership, \<open>flags |= F\<close>
  is insertion and \<open>flags &= ~(F | G)\<close> removes both.
\<close>

datatype slab_flag =
    SLAB_RED_ZONE
  | SLAB_POISON
  | SLAB_HWCACHE_ALIGN
  | SLAB_CACHE_DMA
  | SLAB_STORE_USER
  | SLAB_RECLAIM_ACCOUNT
  | SLAB_PANIC
  | SLAB_DESTROY_BY_RCU
  | SLAB_MEM_SPREAD
  | CFLGS_OFF_SLAB

text \<open>
  What a call can do besides returning: \<open>BUG()\<close> and \<open>BUG_ON\<close> stop the kernel, so does
  \<open>panic\<close>, a division by zero traps, and an access outside an array or through a pointer
  that points to no object of the model has no defined result (\<open>OutOfBounds\<close>).
\<close>

datatype 'a outcome = BUG | Panic | DivideError | OutOfBounds | Return 'a

section \<open>Slab geometry\<close>

text \<open>\<open>ALIGN(x, a)\<close> of the kernel: \<open>(x + (a - 1)) & ~(a - 1)\<close>.\<close>

definition ALIGN :: "u32 \<Rightarrow> u32 \<Rightarrow> u32" where
  "ALIGN x a = (x + (a - 1)) AND NOT (a - 1)"

definition slab_mgmt_size :: "u32 \<Rightarrow> u32 \<Rightarrow> u32" where
  "slab_mgmt_size nr_objs align = ALIGN (sizeof_slab + nr_objs * sizeof_bufctl) align"

text \<open>
  \<open>cache_estimate\<close> returns \<open>(left_over, num)\<close>. \<open>nr_objs\<close> is an \<open>int\<close> of the source;
  its only comparison is with the unsigned \<open>SLAB_LIMIT\<close>, which is an unsigned comparison.
\<close>

definition cache_estimate :: "nat \<Rightarrow> u32 \<Rightarrow> u32 \<Rightarrow> slab_flag set \<Rightarrow> (u32 \<times> u32) option" where
  "cache_estimate gfporder buffer_size align flags =
     (let slab_size = push_bit gfporder PAGE_SIZE in
      if CFLGS_OFF_SLAB \<in> flags then
        if buffer_size = 0 then None
        else
          let mgmt_size = 0;
              nr_objs = slab_size div buffer_size;
              nr_objs = (if nr_objs > SLAB_LIMIT then SLAB_LIMIT else nr_objs)
          in Some (slab_size - nr_objs * buffer_size - mgmt_size, nr_objs)
      else
        if buffer_size + sizeof_bufctl = 0 then None
        else
          let nr_objs = (slab_size - sizeof_slab) div (buffer_size + sizeof_bufctl);
              nr_objs = (if slab_mgmt_size nr_objs align + nr_objs * buffer_size > slab_size
                         then nr_objs - 1 else nr_objs);
              nr_objs = (if nr_objs > SLAB_LIMIT then SLAB_LIMIT else nr_objs);
              mgmt_size = slab_mgmt_size nr_objs align
          in Some (slab_size - nr_objs * buffer_size - mgmt_size, nr_objs))"

text \<open>
  The result of \<open>calculate_slab_order\<close>: the fields \<open>num\<close> and \<open>gfporder\<close> it stores in the
  cache (both 0 in the zeroed descriptor) and the \<open>left_over\<close> it returns.
\<close>

record slab_order =
  so_num :: u32
  so_gfporder :: nat
  so_left_over :: u32

text \<open>
  The \<open>for\<close> loop of \<open>calculate_slab_order\<close>, from \<open>gfporder\<close> on; \<open>brk\<close> is the
  variable \<open>slab_break_gfp_order\<close>. A division by zero in \<open>cache_estimate\<close> is \<open>None\<close>.
\<close>

function cso_loop ::
  "nat \<Rightarrow> u32 \<Rightarrow> u32 \<Rightarrow> slab_flag set \<Rightarrow> nat \<Rightarrow> slab_order \<Rightarrow> slab_order option" where
  "cso_loop brk sz align flags gfporder acc =
     (if gfporder \<le> KMALLOC_MAX_ORDER then
        (case cache_estimate gfporder sz align flags of
           None \<Rightarrow> None
         | Some (remainder, num) \<Rightarrow>
             if num = 0 then cso_loop brk sz align flags (gfporder + 1) acc
             else if CFLGS_OFF_SLAB \<in> flags
                     \<and> num > (sz - sizeof_slab) div sizeof_bufctl then Some acc
             else
               let acc' = \<lparr>so_num = num, so_gfporder = gfporder, so_left_over = remainder\<rparr> in
               if SLAB_RECLAIM_ACCOUNT \<in> flags then Some acc'
               else if gfporder \<ge> brk then Some acc'
               else if remainder * 8 \<le> push_bit gfporder PAGE_SIZE then Some acc'
               else cso_loop brk sz align flags (gfporder + 1) acc')
      else Some acc)"
  by pat_completeness auto
termination
  by (relation "measure (\<lambda>(brk, sz, align, flags, gfporder, acc). Suc KMALLOC_MAX_ORDER - gfporder)") auto

declare cso_loop.simps [simp del]

definition calculate_slab_order ::
  "nat \<Rightarrow> u32 \<Rightarrow> u32 \<Rightarrow> slab_flag set \<Rightarrow> slab_order option" where
  "calculate_slab_order brk sz align flags =
     cso_loop brk sz align flags 0 \<lparr>so_num = 0, so_gfporder = 0, so_left_over = 0\<rparr>"

text \<open>
  The loop \<open>while (size <= ralign / 2) ralign /= 2;\<close> of \<open>kmem_cache_create\<close>. It does not
  end when \<open>size\<close> is 0, which the value \<open>None\<close> stands for.
\<close>

partial_function (option) hwcache_ralign :: "u32 \<Rightarrow> u32 \<Rightarrow> u32 option" where
  "hwcache_ralign sz ralign =
     (if sz \<le> ralign div 2 then hwcache_ralign sz (ralign div 2) else Some ralign)"

section \<open>Data model\<close>

text \<open>
  \<open>struct slab\<close> with the \<open>kmem_bufctl_t\<close> array that follows it in memory. The \<open>list\<close>
  field is the position of the slab's address in one of the lists of its node.
\<close>

record slab =
  colouroff :: u32
  s_mem :: u32
  inuse :: u32
  free :: u32
  nodeid :: nat
  bufctl :: "u32 list"

record array_cache =
  avail :: u32
  limit :: u32
  batchcount :: u32
  touched :: u32
  entry :: "u32 list"

text \<open>
  \<open>struct kmem_list3\<close>: each list holds the addresses of its slab descriptors, first
  element first (\<open>list_add\<close> puts in front, \<open>list_add_tail\<close> at the end).
\<close>

record kmem_list3 =
  slabs_partial :: "u32 list"
  slabs_full :: "u32 list"
  slabs_free :: "u32 list"
  free_objects :: u32
  free_limit :: u32
  colour_next :: u32
  shared :: "array_cache option"
  alien :: "(nat \<Rightarrow> array_cache option) option"
  free_touched :: u32

text \<open>
  The locks of the paths that cross nodes: the \<open>list_lock\<close> of the lists of a node, and the
  \<open>lock\<close> of the alien array a node keeps for another node. \<open>spin_lock\<close> and \<open>spin_unlock\<close>
  on them are recorded as events.
\<close>

datatype lock_id = ListLock nat | AlienLock nat nat

datatype lock_event = Acquire lock_id | Release lock_id

text \<open>
  \<open>struct kmem_cache\<close>, together with the memory the cache owns: the slab descriptors
  by address (\<open>slabs\<close>), the page descriptors' back pointer to the slab by page frame
  number (\<open>page_slab\<close>, what \<open>page_set_slab\<close> writes and \<open>virt_to_slab\<close> reads), the
  content of every object by address (\<open>objmem\<close>), the addresses the constructor has
  been called on, latest last (\<open>ctor_calls\<close>), the slabs handed to \<open>call_rcu\<close> for a
  later release (\<open>rcu_pending\<close>), and the lock events of \<open>cache_free_alien\<close>,
  \<open>__drain_alien_cache\<close> and \<open>drain_alien_cache\<close>, latest last (\<open>lock_trace\<close>). The calls
  that work on the lists of the node they run on take and release its \<open>list_lock\<close>
  within the call; they are written without these events.
\<close>

record 'v kmem_cache =
  array :: "nat \<Rightarrow> array_cache option"
  c_batchcount :: u32
  c_limit :: u32
  c_shared :: u32
  buffer_size :: u32
  flags :: "slab_flag set"
  num :: u32
  gfporder :: nat
  gfp_dma :: bool
  colour :: u32
  colour_off :: u32
  slabp_cache :: "u32 option"
  slab_size :: u32
  ctor :: "('v \<Rightarrow> 'v) option"
  name :: string
  nodelists :: "nat \<Rightarrow> kmem_list3 option"
  slabs :: "u32 \<rightharpoonup> slab"
  page_slab :: "u32 \<rightharpoonup> u32"
  objmem :: "u32 \<Rightarrow> 'v"
  ctor_calls :: "u32 list"
  rcu_pending :: "u32 list"
  lock_trace :: "lock_event list"

text \<open>
  The module's variables: the registry \<open>cache_chain\<close> (the addresses of the caches, first
  element first) with the descriptors it links, \<open>slab_early_init\<close>,
  \<open>slab_break_gfp_order\<close>, whether the caller runs in interrupt context, and the messages
  \<open>slab_error\<close> has printed.
\<close>

record 'v slab_globals =
  in_interrupt :: bool
  slab_early_init :: bool
  slab_break_gfp_order :: nat
  cache_chain :: "u32 list"
  cache_mem :: "u32 \<rightharpoonup> 'v kmem_cache"
  slab_errors :: "string list"

text \<open>
  The zeroed descriptor \<open>kmem_cache_zalloc\<close> returns; \<open>m\<close> is what the memory holds.
\<close>

definition zeroed_cache :: "(u32 \<Rightarrow> 'v) \<Rightarrow> 'v kmem_cache" where
  "zeroed_cache m =
     \<lparr>array = (\<lambda>cpu. None), c_batchcount = 0, c_limit = 0, c_shared = 0, buffer_size = 0,
      flags = {}, num = 0, gfporder = 0, gfp_dma = False, colour = 0, colour_off = 0,
      slabp_cache = None, slab_size = 0, ctor = None, name = [],
      nodelists = (\<lambda>node. None), slabs = Map.empty, page_slab = Map.empty,
      objmem = m, ctor_calls = [], rcu_pending = [], lock_trace = []\<rparr>"

section \<open>Cache creation\<close>

text \<open>
  What \<open>kmem_cache_create\<close> gets from code outside this file: the descriptor
  \<open>kmem_cache_zalloc(&cache_cache, GFP_KERNEL)\<close> returns (\<open>None\<close> is \<open>NULL\<close>), the general
  cache \<open>kmem_find_general_cachep\<close> finds for a size, the per-CPU arrays, the node lists
  and the tunables \<open>setup_cpu_cache\<close> gives the cache (\<open>None\<close> when it returns an error),
  and the content of the memory.
\<close>

record cpu_setup =
  su_array :: "nat \<Rightarrow> array_cache option"
  su_nodelists :: "nat \<Rightarrow> kmem_list3 option"
  su_batchcount :: u32
  su_limit :: u32
  su_shared :: u32

record 'v create_env =
  ce_zalloc :: "u32 option"
  ce_general_cachep :: "u32 \<Rightarrow> u32 option"
  ce_setup_cpu_cache :: "'v kmem_cache \<Rightarrow> cpu_setup option"
  ce_memory :: "u32 \<Rightarrow> 'v"

text \<open>
  The first part of \<open>kmem_cache_create\<close>, from the rounding of \<open>size\<close> to a word up to
  \<open>align = ralign\<close>: the size, the alignment and the flags it leaves.
\<close>

definition create_align ::
  "u32 \<Rightarrow> u32 \<Rightarrow> slab_flag set \<Rightarrow> (u32 \<times> u32 \<times> slab_flag set) option" where
  "create_align sz align fl =
     (let sz = (if sz AND (BYTES_PER_WORD - 1) \<noteq> 0
                then (sz + (BYTES_PER_WORD - 1)) AND NOT (BYTES_PER_WORD - 1) else sz)
      in case (if SLAB_HWCACHE_ALIGN \<in> fl then hwcache_ralign sz cache_line_size
               else Some BYTES_PER_WORD) of
           None \<Rightarrow> None
         | Some ralign \<Rightarrow>
             let ralign = (if SLAB_STORE_USER \<in> fl then BYTES_PER_WORD else ralign);
                 sz = (if SLAB_RED_ZONE \<in> fl
                       then (sz + (REDZONE_ALIGN - 1)) AND NOT (REDZONE_ALIGN - 1) else sz);
                 ralign = (if SLAB_RED_ZONE \<in> fl then REDZONE_ALIGN else ralign);
                 ralign = (if ralign < ARCH_SLAB_MINALIGN then ARCH_SLAB_MINALIGN else ralign);
                 ralign = (if ralign < align then align else ralign);
                 fl = (if ralign > 8 then fl - {SLAB_RED_ZONE, SLAB_STORE_USER}
                          else fl)
             in Some (sz, ralign, fl))"

text \<open>
  The placement of the slab management and the final object size, chosen after the
  descriptor is there: off-slab for a size of at least \<open>PAGE_SIZE >> 3\<close> once
  \<open>slab_early_init\<close> is over, then \<open>size = ALIGN(size, align)\<close>.
\<close>

definition create_placement ::
  "bool \<Rightarrow> u32 \<Rightarrow> u32 \<Rightarrow> slab_flag set \<Rightarrow> u32 \<times> slab_flag set" where
  "create_placement early sz align fl =
     (ALIGN sz align,
      if sz \<ge> drop_bit 3 PAGE_SIZE \<and> \<not> early then insert CFLGS_OFF_SLAB fl else fl)"

text \<open>The label \<open>oops\<close>: a failed creation panics under \<open>SLAB_PANIC\<close>.\<close>

definition create_oops ::
  "'v slab_globals \<Rightarrow> slab_flag set \<Rightarrow> u32 option \<Rightarrow> (u32 option \<times> 'v slab_globals) outcome" where
  "create_oops g fl cachep =
     (if cachep = None \<and> SLAB_PANIC \<in> fl then Panic else Return (cachep, g))"

text \<open>
  \<open>kmem_cache_create\<close> returns the address of the new cache (\<open>None\<close> is \<open>NULL\<close>) and the
  module's variables. The outer \<open>None\<close> is a call that does not return.
\<close>

definition kmem_cache_create ::
  "'v create_env \<Rightarrow> 'v slab_globals \<Rightarrow> string option \<Rightarrow> u32 \<Rightarrow> u32 \<Rightarrow> slab_flag set \<Rightarrow>
   ('v \<Rightarrow> 'v) option \<Rightarrow> ('v \<Rightarrow> 'v) option \<Rightarrow> (u32 option \<times> 'v slab_globals) outcome option" where
  "kmem_cache_create env g name0 sz align fl ctor0 dtor =
     (case name0 of
        None \<Rightarrow> Some BUG
      | Some nm \<Rightarrow>
        if in_interrupt g \<or> sz < BYTES_PER_WORD \<or> sz > KMALLOC_MAX_SIZE \<or> dtor \<noteq> None
        then Some BUG
        else
          (case create_align sz align fl of
             None \<Rightarrow> None
           | Some (sz, align, fl) \<Rightarrow>
             (case ce_zalloc env of
                None \<Rightarrow> Some (create_oops g fl None)
              | Some p \<Rightarrow>
                let (sz, fl) = create_placement (slab_early_init g) sz align fl in
                (case calculate_slab_order (slab_break_gfp_order g) sz align fl of
                   None \<Rightarrow> Some DivideError
                 | Some so \<Rightarrow>
                   if so_num so = 0 then Some (create_oops g fl None)
                   else
                     let slab_size0 = ALIGN (so_num so * sizeof_bufctl + sizeof_slab) align;
                         move = (CFLGS_OFF_SLAB \<in> fl \<and> so_left_over so \<ge> slab_size0);
                         left_over = (if move then so_left_over so - slab_size0
                                      else so_left_over so);
                         fl = (if move then fl - {CFLGS_OFF_SLAB} else fl);
                         slab_size1 = (if CFLGS_OFF_SLAB \<in> fl
                                       then so_num so * sizeof_bufctl + sizeof_slab
                                       else slab_size0);
                         colour_off1 = (if cache_line_size < align then align
                                        else cache_line_size);
                         cachep = (zeroed_cache (ce_memory env))
                           \<lparr>num := so_num so, gfporder := so_gfporder so,
                            colour_off := colour_off1, colour := left_over div colour_off1,
                            slab_size := slab_size1, flags := fl,
                            gfp_dma := (SLAB_CACHE_DMA \<in> fl), buffer_size := sz\<rparr>
                     in
                     if CFLGS_OFF_SLAB \<in> fl \<and> ce_general_cachep env slab_size1 = None
                     then Some BUG
                     else
                       let cachep = cachep
                             \<lparr>slabp_cache := (if CFLGS_OFF_SLAB \<in> fl
                                              then ce_general_cachep env slab_size1 else None),
                              ctor := ctor0, name := nm\<rparr>
                       in (case ce_setup_cpu_cache env cachep of
                             None \<Rightarrow> Some (create_oops g fl None)
                           | Some su \<Rightarrow>
                               let cachep = cachep
                                     \<lparr>array := su_array su, nodelists := su_nodelists su,
                                      c_batchcount := su_batchcount su,
                                      c_limit := su_limit su, c_shared := su_shared su\<rparr>
                               in Some (Return (Some p,
                                   g\<lparr>cache_chain := p # cache_chain g,
                                     cache_mem := (cache_mem g)(p \<mapsto> cachep)\<rparr>)))))))"

text \<open>The cache a call of \<open>kmem_cache_create\<close> has made, if it has made one.\<close>

definition created_cache ::
  "(u32 option \<times> 'v slab_globals) outcome option \<Rightarrow> 'v kmem_cache option" where
  "created_cache r = (case r of Some (Return (Some p, g)) \<Rightarrow> cache_mem g p | _ \<Rightarrow> None)"

text \<open>
  The colour step of \<open>cache_grow\<close>: the offset of the new slab, \<open>colour_next\<close> times
  \<open>colour_off\<close>, and the node list with \<open>colour_next\<close> advanced.
\<close>

definition grow_colour :: "'v kmem_cache \<Rightarrow> kmem_list3 \<Rightarrow> u32 \<times> kmem_list3" where
  "grow_colour cachep l3 =
     (let offset = colour_next l3;
          l3 = l3\<lparr>colour_next := colour_next l3 + 1\<rparr>;
          l3 = (if colour_next l3 \<ge> colour cachep then l3\<lparr>colour_next := 0\<rparr> else l3)
      in (offset * colour_off cachep, l3))"

text \<open>\<open>kmem_list3_init\<close>, without the fields of the reaper.\<close>

definition kmem_list3_init :: kmem_list3 where
  "kmem_list3_init =
     \<lparr>slabs_partial = [], slabs_full = [], slabs_free = [], free_objects = 0,
      free_limit = 0, colour_next = 0, shared = None, alien = None, free_touched = 0\<rparr>"

text \<open>An environment and module variables for concrete runs.\<close>

definition boot_setup :: cpu_setup where
  "boot_setup =
     \<lparr>su_array = (\<lambda>cpu. if cpu = 0
          then Some \<lparr>avail = 0, limit = 1, batchcount = 1, touched = 0, entry = [0]\<rparr>
          else None),
      su_nodelists = (\<lambda>node. if node = 0 then Some kmem_list3_init else None),
      su_batchcount = 1, su_limit = 1, su_shared = 0\<rparr>"

definition example_env :: "nat create_env" where
  "example_env =
     \<lparr>ce_zalloc = Some 0x1000, ce_general_cachep = (\<lambda>n. Some 0x2000),
      ce_setup_cpu_cache = (\<lambda>c. Some boot_setup), ce_memory = (\<lambda>a. 0)\<rparr>"

definition example_globals :: "nat slab_globals" where
  "example_globals =
     \<lparr>in_interrupt = False, slab_early_init = False, slab_break_gfp_order = 0,
      cache_chain = [], cache_mem = Map.empty, slab_errors = []\<rparr>"

section \<open>Objects, slabs and arrays\<close>

definition obind :: "'a outcome \<Rightarrow> ('a \<Rightarrow> 'b outcome) \<Rightarrow> 'b outcome" where
  "obind m f =
     (case m of BUG \<Rightarrow> BUG | Panic \<Rightarrow> Panic | DivideError \<Rightarrow> DivideError
      | OutOfBounds \<Rightarrow> OutOfBounds | Return x \<Rightarrow> f x)"

lemma obind_cong [fundef_cong]:
  "m = m' \<Longrightarrow> (\<And>x. m' = Return x \<Longrightarrow> f x = f' x) \<Longrightarrow> obind m f = obind m' f'"
  by (cases m') (simp_all add: obind_def)

text \<open>The same for a continuation that may not return.\<close>

definition obind_opt :: "'a outcome \<Rightarrow> ('a \<Rightarrow> 'b outcome option) \<Rightarrow> 'b outcome option" where
  "obind_opt m f =
     (case m of BUG \<Rightarrow> Some BUG | Panic \<Rightarrow> Some Panic | DivideError \<Rightarrow> Some DivideError
      | OutOfBounds \<Rightarrow> Some OutOfBounds | Return x \<Rightarrow> f x)"

lemma obind_opt_cong [fundef_cong]:
  "m = m' \<Longrightarrow> (\<And>x. m' = Return x \<Longrightarrow> f x = f' x) \<Longrightarrow> obind_opt m f = obind_opt m' f'"
  by (cases m') (simp_all add: obind_opt_def)

text \<open>
  The allocation flags a caller passes: \<open>GFP_OUTSIDE_MASK\<close> stands for any bit outside
  \<open>GFP_DMA | GFP_LEVEL_MASK\<close>.
\<close>

datatype gfp_flag = GFP_DMA | GFP_WAIT | GFP_THISNODE | GFP_OUTSIDE_MASK

definition index_to_obj :: "'v kmem_cache \<Rightarrow> slab \<Rightarrow> u32 \<Rightarrow> u32" where
  "index_to_obj cachep slabp idx = s_mem slabp + buffer_size cachep * idx"

text \<open>
  Modelled from the spec: \<open>reciprocal_divide\<close> and \<open>reciprocal_value\<close> are not under src/;
  the design notes take the index computation as the integer division of the offset by
  the object size.
\<close>

definition obj_to_index :: "'v kmem_cache \<Rightarrow> slab \<Rightarrow> u32 \<Rightarrow> u32" where
  "obj_to_index cachep slabp obj = (obj - s_mem slabp) div buffer_size cachep"

text \<open>
  \<open>virt_to_slab\<close>: the slab pointer of the page of an object; \<open>None\<close> when the page is not
  marked as a slab page, where \<open>page_get_slab\<close> stops at its \<open>BUG_ON\<close>.
\<close>

definition virt_to_slab :: "'v kmem_cache \<Rightarrow> u32 \<Rightarrow> u32 option" where
  "virt_to_slab cachep obj = page_slab cachep (drop_bit 12 obj)"

definition slab_get_obj :: "'v kmem_cache \<Rightarrow> slab \<Rightarrow> (u32 \<times> slab) outcome" where
  "slab_get_obj cachep slabp =
     (let objp = index_to_obj cachep slabp (free slabp) in
      if unat (free slabp) < length (bufctl slabp)
      then Return (objp, slabp\<lparr>inuse := inuse slabp + 1,
                                free := bufctl slabp ! unat (free slabp)\<rparr>)
      else OutOfBounds)"

definition slab_put_obj :: "'v kmem_cache \<Rightarrow> slab \<Rightarrow> u32 \<Rightarrow> slab outcome" where
  "slab_put_obj cachep slabp objp =
     (let objnr = obj_to_index cachep slabp objp in
      if unat objnr < length (bufctl slabp)
      then Return (slabp\<lparr>bufctl := (bufctl slabp)[unat objnr := free slabp],
                         free := objnr, inuse := inuse slabp - 1\<rparr>)
      else OutOfBounds)"

text \<open>\<open>ac->entry[ac->avail++] = objp\<close> and \<open>ac->entry[--ac->avail]\<close>.\<close>

definition ac_put :: "array_cache \<Rightarrow> u32 \<Rightarrow> array_cache outcome" where
  "ac_put ac objp =
     (if unat (avail ac) < length (entry ac)
      then Return (ac\<lparr>entry := (entry ac)[unat (avail ac) := objp], avail := avail ac + 1\<rparr>)
      else OutOfBounds)"

definition ac_take :: "array_cache \<Rightarrow> (u32 \<times> array_cache) outcome" where
  "ac_take ac =
     (let ac = ac\<lparr>avail := avail ac - 1\<rparr> in
      if unat (avail ac) < length (entry ac)
      then Return (entry ac ! unat (avail ac), ac)
      else OutOfBounds)"

text \<open>
  \<open>memcpy\<close> and \<open>memmove\<close> of \<open>n\<close> pointers from position \<open>soff\<close> of \<open>src\<close> to position
  \<open>doff\<close> of \<open>dst\<close>; \<open>None\<close> when a range leaves its array.
\<close>

definition copy_entries :: "u32 list \<Rightarrow> nat \<Rightarrow> u32 list \<Rightarrow> nat \<Rightarrow> nat \<Rightarrow> u32 list option" where
  "copy_entries dst doff src soff n =
     (if doff + n \<le> length dst \<and> soff + n \<le> length src
      then Some (take doff dst @ take n (drop soff src) @ drop (doff + n) dst)
      else None)"

text \<open>
  \<open>transfer_objects\<close> returns the number of entries moved and both arrays, the target
  first. \<open>min\<close> compares unsigned values.
\<close>

definition transfer_objects ::
  "array_cache \<Rightarrow> array_cache \<Rightarrow> u32 \<Rightarrow> (u32 \<times> array_cache \<times> array_cache) outcome" where
  "transfer_objects to from mx =
     (let nr = min (min (avail from) mx) (limit to - avail to) in
      if nr = 0 then Return (0, to, from)
      else
        (case copy_entries (entry to) (unat (avail to)) (entry from)
                (unat (avail from - nr)) (unat nr) of
           None \<Rightarrow> OutOfBounds
         | Some e \<Rightarrow>
             Return (nr, to\<lparr>entry := e, avail := avail to + nr, touched := 1\<rparr>,
                     from\<lparr>avail := avail from - nr\<rparr>)))"

section \<open>The lists of a node\<close>

definition get_l3 :: "'v kmem_cache \<Rightarrow> nat \<Rightarrow> kmem_list3 outcome" where
  "get_l3 cachep node = (case nodelists cachep node of None \<Rightarrow> OutOfBounds | Some l3 \<Rightarrow> Return l3)"

definition set_l3 :: "'v kmem_cache \<Rightarrow> nat \<Rightarrow> kmem_list3 \<Rightarrow> 'v kmem_cache" where
  "set_l3 cachep node l3 = cachep\<lparr>nodelists := (nodelists cachep)(node := Some l3)\<rparr>"

definition get_ac :: "'v kmem_cache \<Rightarrow> nat \<Rightarrow> array_cache outcome" where
  "get_ac cachep cpu = (case array cachep cpu of None \<Rightarrow> OutOfBounds | Some ac \<Rightarrow> Return ac)"

definition set_ac :: "'v kmem_cache \<Rightarrow> nat \<Rightarrow> array_cache \<Rightarrow> 'v kmem_cache" where
  "set_ac cachep cpu ac = cachep\<lparr>array := (array cachep)(cpu := Some ac)\<rparr>"

definition get_slab :: "'v kmem_cache \<Rightarrow> u32 \<Rightarrow> slab outcome" where
  "get_slab cachep sp = (case slabs cachep sp of None \<Rightarrow> OutOfBounds | Some slabp \<Rightarrow> Return slabp)"

definition set_slab :: "'v kmem_cache \<Rightarrow> u32 \<Rightarrow> slab \<Rightarrow> 'v kmem_cache" where
  "set_slab cachep sp slabp = cachep\<lparr>slabs := (slabs cachep)(sp \<mapsto> slabp)\<rparr>"

text \<open>
  \<open>list_del(&slabp->list)\<close> unlinks the slab from the list it is on, whichever node's
  list that is.
\<close>

definition l3_del :: "u32 \<Rightarrow> kmem_list3 \<Rightarrow> kmem_list3" where
  "l3_del sp l3 =
     l3\<lparr>slabs_partial := removeAll sp (slabs_partial l3),
        slabs_full := removeAll sp (slabs_full l3),
        slabs_free := removeAll sp (slabs_free l3)\<rparr>"

definition list_del :: "u32 \<Rightarrow> 'v kmem_cache \<Rightarrow> 'v kmem_cache" where
  "list_del sp cachep =
     cachep\<lparr>nodelists := (\<lambda>node. map_option (l3_del sp) (nodelists cachep node))\<rparr>"

section \<open>Growth\<close>

text \<open>
  \<open>alloc_slabmgmt\<close>: the address of the descriptor and its first fields. Off-slab the
  descriptor is \<open>mgmt\<close>, what \<open>kmem_cache_alloc_node(cachep->slabp_cache, ...)\<close> returns;
  on-slab it lies at the colour offset of the pages. The \<open>free\<close> field and the \<open>bufctl\<close>
  array, one cell for each of the \<open>num\<close> objects, are not written here: the model starts
  them at 0, and \<open>cache_init_objs\<close> writes every cell.
\<close>

definition alloc_slabmgmt ::
  "'v kmem_cache \<Rightarrow> u32 \<Rightarrow> u32 \<Rightarrow> nat \<Rightarrow> u32 option \<Rightarrow> (u32 \<times> slab) option" where
  "alloc_slabmgmt cachep objp colour_off0 nid mgmt =
     (let fresh = (\<lambda>off. \<lparr>colouroff = off, s_mem = objp + off, inuse = 0, free = 0,
                           nodeid = nid, bufctl = replicate (unat (num cachep)) 0\<rparr>) in
      if CFLGS_OFF_SLAB \<in> flags cachep then
        (case mgmt of None \<Rightarrow> None | Some sp \<Rightarrow> Some (sp, fresh colour_off0))
      else Some (objp + colour_off0, fresh (colour_off0 + slab_size cachep)))"

text \<open>The page frames of the slab whose pages begin at \<open>addr\<close>.\<close>

definition slab_pages :: "'v kmem_cache \<Rightarrow> u32 \<Rightarrow> u32 list" where
  "slab_pages cachep addr = map (\<lambda>i. drop_bit 12 addr + of_nat i) [0..<2 ^ gfporder cachep]"

definition slab_map_pages :: "'v kmem_cache \<Rightarrow> u32 \<Rightarrow> u32 \<Rightarrow> 'v kmem_cache" where
  "slab_map_pages cachep sp addr =
     cachep\<lparr>page_slab := fold (\<lambda>pg m. m(pg \<mapsto> sp)) (slab_pages cachep addr) (page_slab cachep)\<rparr>"

text \<open>A call of the constructor on the object at \<open>objp\<close>, when the cache has one.\<close>

definition call_ctor :: "'v kmem_cache \<Rightarrow> u32 \<Rightarrow> 'v kmem_cache" where
  "call_ctor cachep objp =
     (case ctor cachep of
        None \<Rightarrow> cachep
      | Some f \<Rightarrow> cachep\<lparr>objmem := (objmem cachep)(objp := f (objmem cachep objp)),
                         ctor_calls := ctor_calls cachep @ [objp]\<rparr>)"

text \<open>The \<open>for\<close> loop of \<open>cache_init_objs\<close>, from \<open>i\<close> on.\<close>

function init_objs_loop ::
  "'v kmem_cache \<Rightarrow> slab \<Rightarrow> u32 \<Rightarrow> ('v kmem_cache \<times> slab \<times> u32) outcome" where
  "init_objs_loop cachep slabp i =
     (if i < num cachep then
        if unat i < length (bufctl slabp)
        then init_objs_loop (call_ctor cachep (index_to_obj cachep slabp i))
               (slabp\<lparr>bufctl := (bufctl slabp)[unat i := i + 1]\<rparr>) (i + 1)
        else OutOfBounds
      else Return (cachep, slabp, i))"
  by pat_completeness auto
termination
proof (relation "measure (\<lambda>(cachep, slabp, i). unat (num cachep) - unat i)")
  show "wf (measure (\<lambda>(cachep, slabp, i). unat (num cachep) - unat i))"
    by simp
next
  fix cachep :: "'v kmem_cache" and slabp :: slab and i :: u32
  assume lt: "i < num cachep"
  then have lt': "unat i < unat (num cachep)"
    by (simp add: word_less_nat_alt)
  have "unat i + unat (1 :: u32) < 2 ^ LENGTH(32)"
    using lt' unsigned_less [of "num cachep", where ?'a = nat] by simp
  then have "unat (i + 1) = unat i + 1"
    using unat_add_lem [of i 1] by simp
  moreover note lt'
  moreover have "num (call_ctor cachep (index_to_obj cachep slabp i)) = num cachep"
    by (simp add: call_ctor_def split: option.splits)
  ultimately show "((call_ctor cachep (index_to_obj cachep slabp i),
           slabp\<lparr>bufctl := (bufctl slabp)[unat i := i + 1]\<rparr>, i + 1), cachep, slabp, i)
          \<in> measure (\<lambda>(cachep, slabp, i). unat (num cachep) - unat i)"
    by simp
qed

declare init_objs_loop.simps [simp del]

definition cache_init_objs :: "'v kmem_cache \<Rightarrow> slab \<Rightarrow> ('v kmem_cache \<times> slab) outcome" where
  "cache_init_objs cachep slabp =
     obind (init_objs_loop cachep slabp 0) (\<lambda>(cachep, slabp, i).
       if unat (i - 1) < length (bufctl slabp)
       then Return (cachep, slabp\<lparr>bufctl := (bufctl slabp)[unat (i - 1) := BUFCTL_END],
                                   free := 0\<rparr>)
       else OutOfBounds)"

text \<open>
  \<open>cache_grow\<close> returns 1 or 0 and the cache. \<open>objp0\<close> is its last argument, pages the
  caller brings; \<open>pages\<close> is what \<open>kmem_getpages\<close> returns when it is called and \<open>mgmt\<close>
  what the allocation of an off-slab descriptor returns. \<open>kmem_flagcheck\<close> is taken with
  \<open>CONFIG_ZONE_DMA_FLAG\<close> set.
\<close>

definition cache_grow ::
  "'v kmem_cache \<Rightarrow> gfp_flag set \<Rightarrow> nat \<Rightarrow> u32 option \<Rightarrow> u32 option \<Rightarrow> u32 option \<Rightarrow>
   (int \<times> 'v kmem_cache) outcome" where
  "cache_grow cachep gflags nid objp0 pages mgmt =
     (if GFP_OUTSIDE_MASK \<in> gflags then BUG
      else
        obind (get_l3 cachep nid) (\<lambda>l3.
          let (offset, l3) = grow_colour cachep l3;
              cachep = set_l3 cachep nid l3
          in
          if (GFP_DMA \<in> gflags) \<noteq> gfp_dma cachep then BUG
          else
            (case (case objp0 of None \<Rightarrow> pages | Some a \<Rightarrow> Some a) of
               None \<Rightarrow> Return (0, cachep)
             | Some objp \<Rightarrow>
                 (case alloc_slabmgmt cachep objp offset nid mgmt of
                    None \<Rightarrow> Return (0, cachep)
                  | Some (sp, slabp) \<Rightarrow>
                      obind (cache_init_objs (slab_map_pages cachep sp objp) slabp)
                        (\<lambda>(cachep, slabp).
                          obind (get_l3 cachep nid) (\<lambda>l3.
                            Return (1, set_l3 (set_slab cachep sp slabp) nid
                              (l3\<lparr>slabs_free := slabs_free l3 @ [sp],
                                  free_objects := free_objects l3 + num cachep\<rparr>))))))))"

section \<open>Allocation\<close>

text \<open>
  The inner loop of \<open>cache_alloc_refill\<close>,
  \<open>while (slabp->inuse < cachep->num && batchcount--)\<close>: the decrement takes place whenever
  the first test holds.
\<close>

function refill_from_slab ::
  "'v kmem_cache \<Rightarrow> slab \<Rightarrow> array_cache \<Rightarrow> int \<Rightarrow> (slab \<times> array_cache \<times> int) outcome" where
  "refill_from_slab cachep slabp ac bc =
     (if inuse slabp < num cachep then
        if bc \<noteq> 0 then
          obind (slab_get_obj cachep slabp) (\<lambda>(objp, slabp').
            obind (ac_put ac objp) (\<lambda>ac'.
              refill_from_slab cachep slabp' ac' (bc - 1)))
        else Return (slabp, ac, bc - 1)
      else Return (slabp, ac, bc))"
  by pat_completeness auto
termination
proof (relation "measure (\<lambda>(cachep, slabp, ac, bc). unat (num cachep) - unat (inuse slabp))")
  show "wf (measure (\<lambda>(cachep, slabp, ac, bc). unat (num cachep) - unat (inuse slabp)))"
    by simp
next
  fix cachep :: "'v kmem_cache" and slabp :: slab and ac :: array_cache and bc :: int
    and x xa y and xb :: array_cache
  assume lt: "inuse slabp < num cachep" and g: "slab_get_obj cachep slabp = Return x"
    and x: "(xa, y) = x"
  from lt have lt': "unat (inuse slabp) < unat (num cachep)"
    by (simp add: word_less_nat_alt)
  have "unat (inuse slabp) + unat (1 :: u32) < 2 ^ LENGTH(32)"
    using lt' unsigned_less [of "num cachep", where ?'a = nat] by simp
  then have "unat (inuse slabp + 1) = unat (inuse slabp) + 1"
    using unat_add_lem [of "inuse slabp" 1] by simp
  moreover note lt'
  moreover have "inuse y = inuse slabp + 1"
    using g x by (auto simp: slab_get_obj_def Let_def split: if_splits)
  ultimately show "((cachep, y, xb, bc - 1), cachep, slabp, ac, bc)
          \<in> measure (\<lambda>(cachep, slabp, ac, bc). unat (num cachep) - unat (inuse slabp))"
    by simp
qed

declare refill_from_slab.simps [simp del]

lemma refill_from_slab_le:
  "refill_from_slab cachep slabp ac bc = Return (slabp', ac', bc') \<Longrightarrow> bc' \<le> bc"
proof (induction cachep slabp ac bc rule: refill_from_slab.induct)
  case (1 cachep slabp ac bc)
  show ?case
  proof (cases "inuse slabp < num cachep \<and> bc \<noteq> 0")
    case True
    with "1.prems" obtain objp s1 a1 where
      g: "slab_get_obj cachep slabp = Return (objp, s1)" and p: "ac_put ac objp = Return a1"
      and r: "refill_from_slab cachep s1 a1 (bc - 1) = Return (slabp', ac', bc')"
      by (subst (asm) refill_from_slab.simps)
        (auto simp: obind_def split: outcome.splits)
    from "1.IH" [OF _ _ g refl p r] True have "bc' \<le> bc - 1"
      by simp
    then show ?thesis by simp
  next
    case False
    with "1.prems" show ?thesis
      by (subst (asm) refill_from_slab.simps) (auto split: if_splits)
  qed
qed

lemma refill_from_slab_less:
  assumes "refill_from_slab cachep slabp ac bc = Return (slabp', ac', bc')"
    and "inuse slabp < num cachep" and "0 < bc"
  shows "bc' < bc"
proof -
  from assms obtain objp s1 a1 where
    "refill_from_slab cachep s1 a1 (bc - 1) = Return (slabp', ac', bc')"
    by (subst (asm) refill_from_slab.simps) (auto simp: obind_def split: outcome.splits)
  then have "bc' \<le> bc - 1"
    by (rule refill_from_slab_le)
  then show ?thesis by simp
qed

text \<open>
  The choice of the slab in \<open>cache_alloc_refill\<close>: the first slab of the partial list,
  else, with \<open>free_touched\<close> set, the first of the free list; \<open>None\<close> is \<open>goto must_grow\<close>.
\<close>

definition pick_slab :: "kmem_list3 \<Rightarrow> kmem_list3 \<times> u32 option" where
  "pick_slab l3 =
     (case slabs_partial l3 of
        sp # rest \<Rightarrow> (l3, Some sp)
      | [] \<Rightarrow> (l3\<lparr>free_touched := 1\<rparr>,
                (case slabs_free l3 of [] \<Rightarrow> None | sp # rest \<Rightarrow> Some sp)))"

text \<open>
  \<open>list_add\<close> of the slab to the full list when its free list is at \<open>BUFCTL_END\<close>, to the
  partial list otherwise.
\<close>

definition relink_after_alloc :: "u32 \<Rightarrow> slab \<Rightarrow> kmem_list3 \<Rightarrow> kmem_list3" where
  "relink_after_alloc sp slabp l3 =
     (if free slabp = BUFCTL_END then l3\<lparr>slabs_full := sp # slabs_full l3\<rparr>
      else l3\<lparr>slabs_partial := sp # slabs_partial l3\<rparr>)"

text \<open>The loop \<open>while (batchcount > 0)\<close> of \<open>cache_alloc_refill\<close>.\<close>

function refill_from_lists :: "'v kmem_cache \<Rightarrow> nat \<Rightarrow> nat \<Rightarrow> int \<Rightarrow> 'v kmem_cache outcome" where
  "refill_from_lists cachep cpu node bc =
     (if bc > 0 then
        obind (get_l3 cachep node) (\<lambda>l3.
          case pick_slab l3 of
            (l3, None) \<Rightarrow> Return (set_l3 cachep node l3)
          | (l3, Some sp) \<Rightarrow>
              obind (get_slab cachep sp) (\<lambda>slabp.
                if inuse slabp \<ge> num cachep then BUG
                else
                  obind (get_ac cachep cpu) (\<lambda>ac.
                    obind (refill_from_slab cachep slabp ac bc) (\<lambda>(slabp, ac, bc').
                      let cachep = set_ac (set_slab (set_l3 cachep node l3) sp slabp) cpu ac;
                          cachep = list_del sp cachep
                      in obind (get_l3 cachep node) (\<lambda>l3.
                           refill_from_lists
                             (set_l3 cachep node (relink_after_alloc sp slabp l3))
                             cpu node bc')))))
      else Return cachep)"
  by pat_completeness auto
termination
proof (relation "measure (\<lambda>(cachep, cpu, node, bc). nat bc)")
  show "wf (measure (\<lambda>(cachep, cpu, node, bc). nat bc))"
    by simp
next
  fix cachep :: "'v kmem_cache" and cpu node :: nat and bc :: int
    and slabp ac xd and xe :: slab and ye xf and yf :: int and c1 c2 :: "'v kmem_cache"
  assume "0 < bc" and "\<not> num cachep \<le> inuse slabp"
    and "refill_from_slab cachep slabp ac bc = Return xd" and "(xe, ye) = xd" and "(xf, yf) = ye"
  then have "yf < bc"
    using refill_from_slab_less [of cachep slabp ac bc xe xf yf] by (simp add: not_le)
  with \<open>0 < bc\<close> show "((c2, cpu, node, yf), cachep, cpu, node, bc)
      \<in> measure (\<lambda>(cachep, cpu, node, bc). nat bc)"
    by simp
qed

declare refill_from_lists.simps [simp del]

text \<open>
  \<open>cache_alloc_refill\<close> from the label \<open>retry\<close> to the label \<open>alloc_done\<close>. The \<open>int\<close>
  \<open>batchcount\<close> is passed to \<open>transfer_objects\<close> as an \<open>unsigned int\<close>.
\<close>

definition refill_pass :: "'v kmem_cache \<Rightarrow> nat \<Rightarrow> nat \<Rightarrow> 'v kmem_cache outcome" where
  "refill_pass cachep cpu node =
     obind (get_ac cachep cpu) (\<lambda>ac.
       let bc = sint (batchcount ac);
           bc = (if touched ac = 0 \<and> bc > BATCHREFILL_LIMIT then BATCHREFILL_LIMIT else bc)
       in
       if avail ac > 0 \<or> nodelists cachep node = None then BUG
       else
         obind (get_l3 cachep node) (\<lambda>l3.
           obind (case shared l3 of
                    None \<Rightarrow> Return (0, ac, None)
                  | Some sh \<Rightarrow>
                      obind (transfer_objects ac sh (word_of_int bc)) (\<lambda>(nr, ac, sh).
                        Return (nr, ac, Some sh)))
             (\<lambda>(nr, ac, sh).
               let cachep = set_ac (set_l3 cachep node (l3\<lparr>shared := sh\<rparr>)) cpu ac in
               if nr \<noteq> 0 then Return cachep
               else
                 obind (refill_from_lists cachep cpu node bc) (\<lambda>cachep.
                   obind (get_l3 cachep node) (\<lambda>l3.
                     obind (get_ac cachep cpu) (\<lambda>ac.
                       Return (set_l3 cachep node
                         (l3\<lparr>free_objects := free_objects l3 - avail ac\<rparr>))))))))"

text \<open>The end of \<open>cache_alloc_refill\<close>: \<open>ac->touched = 1; return ac->entry[--ac->avail];\<close>\<close>

definition refill_done :: "'v kmem_cache \<Rightarrow> nat \<Rightarrow> (u32 option \<times> 'v kmem_cache) outcome" where
  "refill_done cachep cpu =
     obind (get_ac cachep cpu) (\<lambda>ac.
       obind (ac_take (ac\<lparr>touched := 1\<rparr>)) (\<lambda>(objp, ac).
         Return (Some objp, set_ac cachep cpu ac)))"

text \<open>
  \<open>cache_alloc_refill\<close> returns the object (\<open>None\<close> is \<open>NULL\<close>) and the cache. Every call of
  \<open>cache_grow\<close> takes its two answers from the page allocator and the descriptor cache
  off the list \<open>answers\<close>; the outer \<open>None\<close> is a run that needs more answers than the
  list holds.
\<close>

fun cache_alloc_refill ::
  "'v kmem_cache \<Rightarrow> gfp_flag set \<Rightarrow> nat \<Rightarrow> nat \<Rightarrow> (u32 option \<times> u32 option) list \<Rightarrow>
   (u32 option \<times> 'v kmem_cache) outcome option" where
  "cache_alloc_refill cachep gflags cpu node answers =
     obind_opt (refill_pass cachep cpu node) (\<lambda>cachep.
       obind_opt (get_ac cachep cpu) (\<lambda>ac.
         if avail ac = 0 then
           (case answers of
              [] \<Rightarrow> None
            | (pages, mgmt) # rest \<Rightarrow>
                obind_opt (cache_grow cachep (insert GFP_THISNODE gflags) node None pages mgmt)
                  (\<lambda>(x, cachep).
                    obind_opt (get_ac cachep cpu) (\<lambda>ac.
                      if x = 0 \<and> avail ac = 0 then Some (Return (None, cachep))
                      else if avail ac = 0
                      then cache_alloc_refill cachep gflags cpu node rest
                      else Some (refill_done cachep cpu))))
         else Some (refill_done cachep cpu)))"

declare cache_alloc_refill.simps [simp del]

text \<open>\<open>____cache_alloc\<close>.\<close>

definition cache_alloc ::
  "'v kmem_cache \<Rightarrow> gfp_flag set \<Rightarrow> nat \<Rightarrow> nat \<Rightarrow> (u32 option \<times> u32 option) list \<Rightarrow>
   (u32 option \<times> 'v kmem_cache) outcome option" where
  "cache_alloc cachep gflags cpu node answers =
     obind_opt (get_ac cachep cpu) (\<lambda>ac.
       if avail ac \<noteq> 0 then
         Some (obind (ac_take (ac\<lparr>touched := 1\<rparr>)) (\<lambda>(objp, ac).
                 Return (Some objp, set_ac cachep cpu ac)))
       else cache_alloc_refill cachep gflags cpu node answers)"

section \<open>Freeing\<close>

text \<open>
  \<open>kmem_freepages\<close>: every page of the slab must be marked as a slab page (\<open>BUG_ON\<close>); the
  marks are cleared.
\<close>

definition kmem_freepages :: "'v kmem_cache \<Rightarrow> u32 \<Rightarrow> 'v kmem_cache outcome" where
  "kmem_freepages cachep addr =
     (if list_all (\<lambda>pg. page_slab cachep pg \<noteq> None) (slab_pages cachep addr)
      then Return (cachep\<lparr>page_slab :=
             fold (\<lambda>pg m. m(pg := None)) (slab_pages cachep addr) (page_slab cachep)\<rparr>)
      else BUG)"

text \<open>
  \<open>slab_destroy\<close>: the pages go back at once, or, for a \<open>SLAB_DESTROY_BY_RCU\<close> cache, to
  \<open>call_rcu\<close>; the descriptor is given up in both cases.
\<close>

definition slab_destroy :: "'v kmem_cache \<Rightarrow> u32 \<Rightarrow> 'v kmem_cache outcome" where
  "slab_destroy cachep sp =
     obind (get_slab cachep sp) (\<lambda>slabp.
       let addr = s_mem slabp - colouroff slabp in
       if SLAB_DESTROY_BY_RCU \<in> flags cachep
       then Return (cachep\<lparr>slabs := (slabs cachep)(sp := None),
                           rcu_pending := rcu_pending cachep @ [addr]\<rparr>)
       else obind (kmem_freepages cachep addr) (\<lambda>cachep.
              Return (cachep\<lparr>slabs := (slabs cachep)(sp := None)\<rparr>)))"

text \<open>The body of the loop of \<open>free_block\<close>, for one object.\<close>

definition free_one :: "'v kmem_cache \<Rightarrow> u32 \<Rightarrow> nat \<Rightarrow> 'v kmem_cache outcome" where
  "free_one cachep objp node =
     (case virt_to_slab cachep objp of
        None \<Rightarrow> BUG
      | Some sp \<Rightarrow>
          obind (get_slab cachep sp) (\<lambda>slabp.
            let cachep = list_del sp cachep in
            obind (slab_put_obj cachep slabp objp) (\<lambda>slabp.
              let cachep = set_slab cachep sp slabp in
              obind (get_l3 cachep node) (\<lambda>l3.
                let l3 = l3\<lparr>free_objects := free_objects l3 + 1\<rparr> in
                if inuse slabp = 0 then
                  if free_objects l3 > free_limit l3
                  then slab_destroy
                         (set_l3 cachep node
                            (l3\<lparr>free_objects := free_objects l3 - num cachep\<rparr>)) sp
                  else Return (set_l3 cachep node (l3\<lparr>slabs_free := sp # slabs_free l3\<rparr>))
                else Return (set_l3 cachep node
                               (l3\<lparr>slabs_partial := slabs_partial l3 @ [sp]\<rparr>))))))"

fun free_objs :: "'v kmem_cache \<Rightarrow> u32 list \<Rightarrow> nat \<Rightarrow> 'v kmem_cache outcome" where
  "free_objs cachep [] node = Return cachep"
| "free_objs cachep (objp # rest) node =
     obind (free_one cachep objp node) (\<lambda>cachep. free_objs cachep rest node)"

text \<open>
  \<open>free_block\<close> frees \<open>objpp[0]\<close> to \<open>objpp[nr_objects - 1]\<close>, in this order; no object when
  \<open>nr_objects\<close> is not positive.
\<close>

definition free_block :: "'v kmem_cache \<Rightarrow> u32 list \<Rightarrow> int \<Rightarrow> nat \<Rightarrow> 'v kmem_cache outcome" where
  "free_block cachep objpp nr_objects node =
     (if nat nr_objects \<le> length objpp
      then free_objs cachep (take (nat nr_objects) objpp) node
      else OutOfBounds)"

text \<open>The number of pointers in \<open>sizeof(void *) * n\<close> bytes, for an \<open>int\<close> \<open>n\<close>.\<close>

definition ptr_count :: "int \<Rightarrow> nat" where
  "ptr_count n = unat ((4 :: u32) * word_of_int n) div 4"

definition cache_flusharray :: "'v kmem_cache \<Rightarrow> nat \<Rightarrow> nat \<Rightarrow> 'v kmem_cache outcome" where
  "cache_flusharray cachep cpu node =
     obind (get_ac cachep cpu) (\<lambda>ac.
       let bc = sint (batchcount ac) in
       obind (get_l3 cachep node) (\<lambda>l3.
         obind
           (case shared l3 of
              None \<Rightarrow> obind (free_block cachep (entry ac) bc node) (\<lambda>cachep. Return (cachep, bc))
            | Some sh \<Rightarrow>
                let mx = sint (limit sh - avail sh) in
                if mx \<noteq> 0 then
                  let bc = (if bc > mx then mx else bc) in
                  (case copy_entries (entry sh) (unat (avail sh)) (entry ac) 0 (ptr_count bc) of
                     None \<Rightarrow> OutOfBounds
                   | Some e \<Rightarrow>
                       Return (set_l3 cachep node
                                 (l3\<lparr>shared := Some (sh\<lparr>entry := e,
                                                         avail := avail sh + word_of_int bc\<rparr>)\<rparr>),
                               bc))
                else obind (free_block cachep (entry ac) bc node) (\<lambda>cachep. Return (cachep, bc)))
           (\<lambda>(cachep, bc).
             let ac = ac\<lparr>avail := avail ac - word_of_int bc\<rparr> in
             if bc < 0 then OutOfBounds
             else
               (case copy_entries (entry ac) 0 (entry ac) (nat bc) (unat (avail ac)) of
                  None \<Rightarrow> OutOfBounds
                | Some e \<Rightarrow> Return (set_ac cachep cpu (ac\<lparr>entry := e\<rparr>))))))"

text \<open>The alien array node \<open>node\<close> keeps for the objects of node \<open>nid\<close>.\<close>

definition get_alien :: "kmem_list3 \<Rightarrow> nat \<Rightarrow> array_cache option" where
  "get_alien l3 nid = (case alien l3 of None \<Rightarrow> None | Some al \<Rightarrow> al nid)"

definition set_alien :: "'v kmem_cache \<Rightarrow> nat \<Rightarrow> nat \<Rightarrow> array_cache \<Rightarrow> 'v kmem_cache outcome" where
  "set_alien cachep node nid ac =
     obind (get_l3 cachep node) (\<lambda>l3.
       case alien l3 of
         None \<Rightarrow> OutOfBounds
       | Some al \<Rightarrow> Return (set_l3 cachep node (l3\<lparr>alien := Some (al(nid := Some ac))\<rparr>)))"

text \<open>\<open>spin_lock\<close> and \<open>spin_unlock\<close> on one of the recorded locks.\<close>

definition spin_lock :: "lock_id \<Rightarrow> 'v kmem_cache \<Rightarrow> 'v kmem_cache" where
  "spin_lock l cachep = cachep\<lparr>lock_trace := lock_trace cachep @ [Acquire l]\<rparr>"

definition spin_unlock :: "lock_id \<Rightarrow> 'v kmem_cache \<Rightarrow> 'v kmem_cache" where
  "spin_unlock l cachep = cachep\<lparr>lock_trace := lock_trace cachep @ [Release l]\<rparr>"

text \<open>
  \<open>__drain_alien_cache\<close>, on the alien array \<open>ac\<close> of the objects of node \<open>node\<close>: it
  returns the cache and the array. It works under the \<open>list_lock\<close> of node \<open>node\<close>.
\<close>

definition drain_alien ::
  "'v kmem_cache \<Rightarrow> array_cache \<Rightarrow> nat \<Rightarrow> ('v kmem_cache \<times> array_cache) outcome" where
  "drain_alien cachep ac node =
     (if avail ac \<noteq> 0 then
        obind (get_l3 cachep node) (\<lambda>rl3.
          let cachep = spin_lock (ListLock node) cachep in
          obind
            (case shared rl3 of
               None \<Rightarrow> Return (cachep, ac)
             | Some sh \<Rightarrow>
                 obind (transfer_objects sh ac (limit ac)) (\<lambda>(nr, sh, ac).
                   Return (set_l3 cachep node (rl3\<lparr>shared := Some sh\<rparr>), ac)))
            (\<lambda>(cachep, ac).
              obind (free_block cachep (entry ac) (sint (avail ac)) node) (\<lambda>cachep.
                Return (spin_unlock (ListLock node) cachep, ac\<lparr>avail := 0\<rparr>))))
      else Return (cachep, ac))"

text \<open>
  \<open>cache_free_alien\<close> of the NUMA build returns 1 when it has taken the object, and the
  cache. \<open>node\<close> is \<open>numa_node_id()\<close>. The alien array is written under its own lock;
  without an alien array, \<open>free_block\<close> runs under the \<open>list_lock\<close> of the node of the slab.
\<close>

definition cache_free_alien ::
  "'v kmem_cache \<Rightarrow> u32 \<Rightarrow> nat \<Rightarrow> (int \<times> 'v kmem_cache) outcome" where
  "cache_free_alien cachep objp node =
     (case virt_to_slab cachep objp of
        None \<Rightarrow> BUG
      | Some sp \<Rightarrow>
          obind (get_slab cachep sp) (\<lambda>slabp.
            let nid = nodeid slabp in
            if nid = node then Return (0, cachep)
            else
              obind (get_l3 cachep node) (\<lambda>l3.
                case get_alien l3 nid of
                  Some al \<Rightarrow>
                    let cachep = spin_lock (AlienLock node nid) cachep in
                    obind (if avail al = limit al then drain_alien cachep al nid
                           else Return (cachep, al)) (\<lambda>(cachep, al).
                      obind (ac_put al objp) (\<lambda>al.
                        obind (set_alien cachep node nid al) (\<lambda>cachep.
                          Return (1, spin_unlock (AlienLock node nid) cachep))))
                | None \<Rightarrow>
                    obind (get_l3 cachep nid) (\<lambda>rl3.
                      obind (free_block (spin_lock (ListLock nid) cachep) [objp] 1 nid)
                        (\<lambda>cachep. Return (1, spin_unlock (ListLock nid) cachep))))))"

text \<open>\<open>__cache_free\<close>, on CPU \<open>cpu\<close> of node \<open>node\<close>.\<close>

definition cache_free :: "'v kmem_cache \<Rightarrow> u32 \<Rightarrow> nat \<Rightarrow> nat \<Rightarrow> 'v kmem_cache outcome" where
  "cache_free cachep objp cpu node =
     obind (cache_free_alien cachep objp node) (\<lambda>(taken, cachep).
       if taken \<noteq> 0 then Return cachep
       else
         obind (get_ac cachep cpu) (\<lambda>ac.
           if avail ac < limit ac
           then obind (ac_put ac objp) (\<lambda>ac. Return (set_ac cachep cpu ac))
           else
             obind (cache_flusharray cachep cpu node) (\<lambda>cachep.
               obind (get_ac cachep cpu) (\<lambda>ac.
                 obind (ac_put ac objp) (\<lambda>ac. Return (set_ac cachep cpu ac))))))"

section \<open>Shrinking and destruction\<close>

text \<open>The CPUs and nodes that are online, and the node of each CPU.\<close>

record topology =
  online_cpus :: "nat list"
  online_nodes :: "nat list"
  cpu_to_node :: "nat \<Rightarrow> nat"

definition do_drain :: "'v kmem_cache \<Rightarrow> nat \<Rightarrow> nat \<Rightarrow> 'v kmem_cache outcome" where
  "do_drain cachep cpu node =
     obind (get_ac cachep cpu) (\<lambda>ac.
       obind (get_l3 cachep node) (\<lambda>l3.
         obind (free_block cachep (entry ac) (sint (avail ac)) node) (\<lambda>cachep.
           Return (set_ac cachep cpu (ac\<lparr>avail := 0\<rparr>)))))"

text \<open>
  \<open>drain_array\<close> on an array \<open>ac\<close> that is not a field of the lists it frees into; it
  returns the cache and the array. \<open>tofree\<close> is an \<open>int\<close>, compared with the unsigned
  \<open>avail\<close> as an unsigned value.
\<close>

definition drain_array ::
  "'v kmem_cache \<Rightarrow> array_cache option \<Rightarrow> bool \<Rightarrow> nat \<Rightarrow>
   ('v kmem_cache \<times> array_cache option) outcome" where
  "drain_array cachep aco force node =
     (case aco of
        None \<Rightarrow> Return (cachep, None)
      | Some ac \<Rightarrow>
          if avail ac = 0 then Return (cachep, Some ac)
          else if touched ac \<noteq> 0 \<and> \<not> force then Return (cachep, Some (ac\<lparr>touched := 0\<rparr>))
          else
            let tofree = (if force then avail ac else (limit ac + 4) div 5);
                tofree = (if tofree > avail ac then (avail ac + 1) div 2 else tofree)
            in
            obind (free_block cachep (entry ac) (sint tofree) node) (\<lambda>cachep.
              let ac = ac\<lparr>avail := avail ac - tofree\<rparr> in
              if sint tofree < 0 then OutOfBounds
              else
                (case copy_entries (entry ac) 0 (entry ac) (nat (sint tofree))
                        (unat (avail ac)) of
                   None \<Rightarrow> OutOfBounds
                 | Some e \<Rightarrow> Return (cachep, Some (ac\<lparr>entry := e\<rparr>)))))"

text \<open>\<open>drain_array(cachep, l3, l3->shared, 1, node)\<close>, with the array written back.\<close>

definition drain_shared :: "'v kmem_cache \<Rightarrow> nat \<Rightarrow> 'v kmem_cache outcome" where
  "drain_shared cachep node =
     (case nodelists cachep node of
        None \<Rightarrow> Return cachep
      | Some l3 \<Rightarrow>
          obind (drain_array cachep (shared l3) True node) (\<lambda>(cachep, sh).
            obind (get_l3 cachep node) (\<lambda>l3.
              Return (set_l3 cachep node (l3\<lparr>shared := sh\<rparr>)))))"

text \<open>
  \<open>drain_alien_cache\<close> on the alien arrays of node \<open>node\<close>, for the nodes \<open>nids\<close>, each
  under its lock.
\<close>

fun drain_alien_cache :: "'v kmem_cache \<Rightarrow> nat \<Rightarrow> nat list \<Rightarrow> 'v kmem_cache outcome" where
  "drain_alien_cache cachep node [] = Return cachep"
| "drain_alien_cache cachep node (i # nids) =
     obind (get_l3 cachep node) (\<lambda>l3.
       case get_alien l3 i of
         None \<Rightarrow> drain_alien_cache cachep node nids
       | Some ac \<Rightarrow>
           obind (drain_alien (spin_lock (AlienLock node i) cachep) ac i) (\<lambda>(cachep, ac).
             obind (set_alien cachep node i ac) (\<lambda>cachep.
               drain_alien_cache (spin_unlock (AlienLock node i) cachep) node nids)))"

text \<open>A loop over a list of CPUs or nodes that stops where a step does not return.\<close>

fun for_each :: "'a list \<Rightarrow> ('s \<Rightarrow> 'a \<Rightarrow> 's outcome) \<Rightarrow> 's \<Rightarrow> 's outcome" where
  "for_each [] f st = Return st"
| "for_each (x # xs) f st = obind (f st x) (for_each xs f)"

definition drain_cpu_caches :: "topology \<Rightarrow> 'v kmem_cache \<Rightarrow> 'v kmem_cache outcome" where
  "drain_cpu_caches topo cachep =
     obind (for_each (online_cpus topo)
              (\<lambda>cachep cpu. do_drain cachep cpu (cpu_to_node topo cpu)) cachep) (\<lambda>cachep.
       obind (for_each (online_nodes topo)
                (\<lambda>cachep node.
                   case nodelists cachep node of
                     None \<Rightarrow> Return cachep
                   | Some l3 \<Rightarrow>
                       if alien l3 \<noteq> None
                       then drain_alien_cache cachep node (online_nodes topo)
                       else Return cachep) cachep) (\<lambda>cachep.
         for_each (online_nodes topo) drain_shared cachep))"

text \<open>
  The loop of \<open>drain_freelist\<close> on the lists of node \<open>node\<close>: it takes the last slab of
  the free list.
\<close>

function drain_freelist ::
  "'v kmem_cache \<Rightarrow> nat \<Rightarrow> int \<Rightarrow> int \<Rightarrow> (int \<times> 'v kmem_cache) outcome" where
  "drain_freelist cachep node tofree nr_freed =
     (if nr_freed < tofree then
        obind (get_l3 cachep node) (\<lambda>l3.
          if slabs_free l3 = [] then Return (nr_freed, cachep)
          else
            let sp = last (slabs_free l3);
                cachep = list_del sp cachep
            in obind (get_l3 cachep node) (\<lambda>l3.
                 obind (slab_destroy
                          (set_l3 cachep node
                             (l3\<lparr>free_objects := free_objects l3 - num cachep\<rparr>)) sp)
                   (\<lambda>cachep. drain_freelist cachep node tofree (nr_freed + 1))))
      else Return (nr_freed, cachep))"
  by pat_completeness auto
termination
  by (relation "measure (\<lambda>(cachep, node, tofree, nr_freed). nat (tofree - nr_freed))") auto

declare drain_freelist.simps [simp del]

text \<open>
  The loop of \<open>__cache_shrink\<close> over the online nodes, with the count \<open>ret\<close> of the nodes
  that keep a full or a partial slab.
\<close>

fun shrink_nodes :: "'v kmem_cache \<Rightarrow> nat list \<Rightarrow> int \<Rightarrow> (int \<times> 'v kmem_cache) outcome" where
  "shrink_nodes cachep [] ret = Return (ret, cachep)"
| "shrink_nodes cachep (i # nodes) ret =
     (case nodelists cachep i of
        None \<Rightarrow> shrink_nodes cachep nodes ret
      | Some l3 \<Rightarrow>
          obind (drain_freelist cachep i (sint (free_objects l3)) 0) (\<lambda>(freed, cachep).
            obind (get_l3 cachep i) (\<lambda>l3.
              shrink_nodes cachep nodes
                (ret + (if slabs_full l3 \<noteq> [] \<or> slabs_partial l3 \<noteq> [] then 1 else 0)))))"

definition cache_shrink :: "topology \<Rightarrow> 'v kmem_cache \<Rightarrow> (int \<times> 'v kmem_cache) outcome" where
  "cache_shrink topo cachep =
     obind (drain_cpu_caches topo cachep) (\<lambda>cachep.
       obind (shrink_nodes cachep (online_nodes topo) 0) (\<lambda>(ret, cachep).
         Return (if ret \<noteq> 0 then 1 else 0, cachep)))"

text \<open>
  \<open>kmem_cache_destroy\<close> of the cache at \<open>p\<close> (\<open>None\<close> is \<open>NULL\<close>). \<open>__kmem_cache_destroy\<close>
  frees the arrays, the node lists and the descriptor: the cache is no longer in
  \<open>cache_mem\<close>.
\<close>

definition kmem_cache_destroy ::
  "topology \<Rightarrow> 'v slab_globals \<Rightarrow> u32 option \<Rightarrow> 'v slab_globals outcome" where
  "kmem_cache_destroy topo g cachep0 =
     (case cachep0 of
        None \<Rightarrow> BUG
      | Some p \<Rightarrow>
          if in_interrupt g then BUG
          else
            let g = g\<lparr>cache_chain := removeAll p (cache_chain g)\<rparr> in
            (case cache_mem g p of
               None \<Rightarrow> OutOfBounds
             | Some cachep \<Rightarrow>
                 obind (cache_shrink topo cachep) (\<lambda>(ret, cachep).
                   if ret \<noteq> 0
                   then Return (g\<lparr>slab_errors := slab_errors g @ [''Can'' @ [CHR 0x27] @ ''t free all objects''],
                                  cache_chain := p # cache_chain g,
                                  cache_mem := (cache_mem g)(p \<mapsto> cachep)\<rparr>)
                   else Return (g\<lparr>cache_mem := (cache_mem g)(p := None)\<rparr>))))"

section \<open>Properties of states, and states for concrete runs\<close>

text \<open>What a call has returned, if it has returned.\<close>

definition returned :: "'a outcome \<Rightarrow> 'a option" where
  "returned r = (case r of Return x \<Rightarrow> Some x | _ \<Rightarrow> None)"

definition returned_opt :: "'a outcome option \<Rightarrow> 'a option" where
  "returned_opt r = (case r of Some (Return x) \<Rightarrow> Some x | _ \<Rightarrow> None)"

text \<open>A node has no slab on its full list and none on its partial list.\<close>

definition no_busy_slabs :: "'v kmem_cache \<Rightarrow> nat \<Rightarrow> bool" where
  "no_busy_slabs cachep node =
     (case nodelists cachep node of
        None \<Rightarrow> True
      | Some l3 \<Rightarrow> slabs_full l3 = [] \<and> slabs_partial l3 = [])"

text \<open>
  A small cache on one CPU and one node: two objects of 64 bytes in a slab of one page,
  a front-end of two entries with a batch of one, and a constructor that counts.
\<close>

definition example_cache :: "nat kmem_cache" where
  "example_cache =
     \<lparr>array = (\<lambda>cpu. if cpu = 0
          then Some \<lparr>avail = 0, limit = 2, batchcount = 1, touched = 0, entry = [0, 0]\<rparr>
          else None),
      c_batchcount = 1, c_limit = 2, c_shared = 0, buffer_size = 64, flags = {}, num = 2,
      gfporder = 0, gfp_dma = False, colour = 0, colour_off = 32, slabp_cache = None,
      slab_size = 64, ctor = Some Suc, name = ''example'',
      nodelists = (\<lambda>node. if node = 0 then Some (kmem_list3_init\<lparr>free_limit := 3\<rparr>)
                           else None),
      slabs = Map.empty, page_slab = Map.empty, objmem = (\<lambda>a. 0), ctor_calls = [],
      rcu_pending = [], lock_trace = []\<rparr>"

definition example_topology :: topology where
  "example_topology = \<lparr>online_cpus = [0], online_nodes = [0], cpu_to_node = (\<lambda>cpu. 0)\<rparr>"

text \<open>The example cache after one allocation, which grows its first slab at 0x10000.\<close>

definition example_cache_used :: "nat kmem_cache" where
  "example_cache_used =
     (case returned_opt (cache_alloc example_cache {} 0 0 [(Some 0x10000, None)]) of
        Some (obj, cachep) \<Rightarrow> cachep
      | None \<Rightarrow> example_cache)"

text \<open>A registry that holds the used example cache at 0x1000.\<close>

definition example_registry :: "nat slab_globals" where
  "example_registry =
     example_globals\<lparr>cache_chain := [0x1000],
                      cache_mem := [0x1000 \<mapsto> example_cache_used]\<rparr>"

section \<open>The invariant of a cache\<close>

text \<open>
  The free list of a slab: the indices from \<open>free\<close> along the \<open>bufctl\<close> links to
  \<open>BUFCTL_END\<close>, if no more than \<open>n\<close> links lead there and none leaves the array.
\<close>

fun free_chain :: "nat \<Rightarrow> u32 list \<Rightarrow> u32 \<Rightarrow> u32 list option" where
  "free_chain 0 b f = (if f = BUFCTL_END then Some [] else None)"
| "free_chain (Suc n) b f =
     (if f = BUFCTL_END then Some []
      else if unat f < length b then map_option (Cons f) (free_chain n b (b ! unat f))
      else None)"

definition free_idxs :: "'v kmem_cache \<Rightarrow> slab \<Rightarrow> u32 list" where
  "free_idxs cachep slabp =
     (case free_chain (unat (num cachep)) (bufctl slabp) (free slabp) of
        None \<Rightarrow> [] | Some xs \<Rightarrow> xs)"

text \<open>
  A slab is well formed: its \<open>bufctl\<close> array has \<open>num\<close> cells, its free list ends, has no
  index twice, and holds every object that is not in use.
\<close>

definition slab_ok :: "'v kmem_cache \<Rightarrow> slab \<Rightarrow> bool" where
  "slab_ok cachep slabp \<longleftrightarrow>
     length (bufctl slabp) = unat (num cachep)
     \<and> (case free_chain (unat (num cachep)) (bufctl slabp) (free slabp) of
          None \<Rightarrow> False
        | Some xs \<Rightarrow> distinct xs \<and> length xs + unat (inuse slabp) = unat (num cachep))"

datatype slab_list = OnPartial | OnFull | OnFree

definition l3_list :: "kmem_list3 \<Rightarrow> slab_list \<Rightarrow> u32 list" where
  "l3_list l3 k =
     (case k of OnPartial \<Rightarrow> slabs_partial l3 | OnFull \<Rightarrow> slabs_full l3
      | OnFree \<Rightarrow> slabs_free l3)"

text \<open>The list \<open>inuse\<close> assigns to a slab.\<close>

definition list_of_inuse :: "'v kmem_cache \<Rightarrow> slab \<Rightarrow> slab_list" where
  "list_of_inuse cachep slabp =
     (if inuse slabp = 0 then OnFree
      else if inuse slabp = num cachep then OnFull else OnPartial)"

text \<open>
  The slab at \<open>sp\<close> is linked on exactly one list: of all the lists of all the nodes, it
  is on the list of its own node that \<open>inuse\<close> assigns to it, once, and on no other.
\<close>

definition slab_linked :: "'v kmem_cache \<Rightarrow> u32 \<Rightarrow> slab \<Rightarrow> bool" where
  "slab_linked cachep sp slabp \<longleftrightarrow>
     nodelists cachep (nodeid slabp) \<noteq> None
     \<and> (\<forall>node l3 k. nodelists cachep node = Some l3 \<longrightarrow>
           (sp \<in> set (l3_list l3 k)
              \<longleftrightarrow> node = nodeid slabp \<and> k = list_of_inuse cachep slabp)
           \<and> distinct (l3_list l3 k))"

text \<open>The property of claim C1, for every slab of the cache.\<close>

definition slab_lists_property :: "'v kmem_cache \<Rightarrow> bool" where
  "slab_lists_property cachep \<longleftrightarrow>
     (\<forall>sp slabp. slabs cachep sp = Some slabp \<longrightarrow>
        inuse slabp \<le> num cachep \<and> slab_linked cachep sp slabp)"

text \<open>
  The addresses of a slab: every object of the slab lies on a page that points back to
  the slab, at the index the division gives, and the pages \<open>slab_destroy\<close> will release
  are the slab's.
\<close>

definition slab_addr_ok :: "'v kmem_cache \<Rightarrow> u32 \<Rightarrow> slab \<Rightarrow> bool" where
  "slab_addr_ok cachep sp slabp \<longleftrightarrow>
     (\<forall>i. i < num cachep \<longrightarrow>
        virt_to_slab cachep (index_to_obj cachep slabp i) = Some sp
        \<and> obj_to_index cachep slabp (index_to_obj cachep slabp i) = i)
     \<and> (\<forall>pg \<in> set (slab_pages cachep (s_mem slabp - colouroff slabp)).
          page_slab cachep pg = Some sp)"

text \<open>
  The object at \<open>objp\<close> is allocated: it is an object of a slab of the cache and not on
  the free list of the slab. \<open>obj_node\<close> is the node of its slab.
\<close>

definition allocated :: "'v kmem_cache \<Rightarrow> u32 \<Rightarrow> bool" where
  "allocated cachep objp \<longleftrightarrow>
     (case virt_to_slab cachep objp of
        None \<Rightarrow> False
      | Some sp \<Rightarrow>
          (case slabs cachep sp of
             None \<Rightarrow> False
           | Some slabp \<Rightarrow>
               obj_to_index cachep slabp objp < num cachep
               \<and> index_to_obj cachep slabp (obj_to_index cachep slabp objp) = objp
               \<and> obj_to_index cachep slabp objp \<notin> set (free_idxs cachep slabp)))"

definition obj_node :: "'v kmem_cache \<Rightarrow> u32 \<Rightarrow> nat option" where
  "obj_node cachep objp =
     (case virt_to_slab cachep objp of
        None \<Rightarrow> None
      | Some sp \<Rightarrow> map_option nodeid (slabs cachep sp))"

text \<open>
  The arrays of a cache: the front-end of a CPU, the shared array of a node, and the
  alien array a node keeps for another node. \<open>ac_objs\<close> are the objects an array holds.
\<close>

datatype ac_loc = CpuArray nat | SharedArray nat | AlienArray nat nat

definition ac_at :: "'v kmem_cache \<Rightarrow> ac_loc \<Rightarrow> array_cache option" where
  "ac_at cachep loc =
     (case loc of
        CpuArray cpu \<Rightarrow> array cachep cpu
      | SharedArray node \<Rightarrow>
          (case nodelists cachep node of None \<Rightarrow> None | Some l3 \<Rightarrow> shared l3)
      | AlienArray node nid \<Rightarrow>
          (case nodelists cachep node of None \<Rightarrow> None | Some l3 \<Rightarrow> get_alien l3 nid))"

definition ac_objs :: "array_cache \<Rightarrow> u32 list" where
  "ac_objs ac = take (unat (avail ac)) (entry ac)"

text \<open>The node whose slabs the objects of an array come from.\<close>

definition loc_node :: "topology \<Rightarrow> ac_loc \<Rightarrow> nat" where
  "loc_node topo loc =
     (case loc of CpuArray cpu \<Rightarrow> cpu_to_node topo cpu | SharedArray node \<Rightarrow> node
      | AlienArray node nid \<Rightarrow> nid)"

text \<open>
  An array is well formed: it has room for \<open>limit\<close> entries, at least one, holds no more
  and none twice, and its objects are allocated objects of the right node. The batch of
  a front-end is positive and no more than its limit.
\<close>

definition ac_ok :: "topology \<Rightarrow> 'v kmem_cache \<Rightarrow> ac_loc \<Rightarrow> array_cache \<Rightarrow> bool" where
  "ac_ok topo cachep loc ac \<longleftrightarrow>
     length (entry ac) = unat (limit ac) \<and> 0 < unat (limit ac) \<and> unat (limit ac) < 2 ^ 30
     \<and> avail ac \<le> limit ac
     \<and> distinct (ac_objs ac)
     \<and> (\<forall>objp \<in> set (ac_objs ac).
          allocated cachep objp \<and> obj_node cachep objp = Some (loc_node topo loc))
     \<and> (case loc of
          CpuArray cpu \<Rightarrow> 0 < sint (batchcount ac) \<and> sint (batchcount ac) \<le> uint (limit ac)
        | SharedArray node \<Rightarrow> True
        | AlienArray node nid \<Rightarrow> True)"

text \<open>
  The geometry of a cache is sound: objects of a positive size, at least one in a slab,
  and the largest colour offset, the management (when it is on the slab) and the
  objects fit into the pages of a slab.
\<close>

definition geom_ok :: "'v kmem_cache \<Rightarrow> bool" where
  "geom_ok cachep \<longleftrightarrow>
     0 < buffer_size cachep \<and> 0 < num cachep \<and> num cachep \<le> SLAB_LIMIT
     \<and> gfporder cachep \<le> 19
     \<and> unat (colour cachep) * unat (colour_off cachep)
         + (if CFLGS_OFF_SLAB \<in> flags cachep then 0 else unat (slab_size cachep))
         + unat (num cachep) * unat (buffer_size cachep)
       \<le> 4096 * 2 ^ gfporder cachep"

text \<open>
  The invariant of the slabs and the lists: sound geometry; every slab well formed,
  with sound addresses, and linked on exactly the list \<open>inuse\<close> assigns to it; the lists
  link slabs of the cache only, and \<open>colour_next\<close> is a colour.
\<close>

definition heap_inv :: "'v kmem_cache \<Rightarrow> bool" where
  "heap_inv cachep \<longleftrightarrow>
     geom_ok cachep
     \<and> (\<forall>sp slabp. slabs cachep sp = Some slabp \<longrightarrow>
          slab_ok cachep slabp \<and> slab_addr_ok cachep sp slabp
          \<and> slab_linked cachep sp slabp)
     \<and> (\<forall>node l3. nodelists cachep node = Some l3 \<longrightarrow>
          (\<forall>k. set (l3_list l3 k) \<subseteq> dom (slabs cachep) \<and> distinct (l3_list l3 k))
          \<and> (colour_next l3 < colour cachep \<or> colour_next l3 = 0))"

text \<open>The invariant of the arrays: every array well formed, and no object in two arrays.\<close>

definition arrays_inv :: "topology \<Rightarrow> 'v kmem_cache \<Rightarrow> bool" where
  "arrays_inv topo cachep \<longleftrightarrow>
     (\<forall>loc ac. ac_at cachep loc = Some ac \<longrightarrow> ac_ok topo cachep loc ac)
     \<and> (\<forall>loc ac loc' ac'. ac_at cachep loc = Some ac \<and> ac_at cachep loc' = Some ac'
          \<and> loc \<noteq> loc' \<longrightarrow> set (ac_objs ac) \<inter> set (ac_objs ac') = {})"

definition cache_inv :: "topology \<Rightarrow> 'v kmem_cache \<Rightarrow> bool" where
  "cache_inv topo cachep \<longleftrightarrow> heap_inv cachep \<and> arrays_inv topo cachep"

text \<open>
  What the page allocator and the descriptor cache may answer to a call of \<open>cache_grow\<close>:
  pages that begin on a page boundary, end in the address space and belong to no slab,
  and, off-slab, a descriptor that is not the descriptor of a slab.
\<close>

definition answer_ok :: "'v kmem_cache \<Rightarrow> u32 option \<times> u32 option \<Rightarrow> bool" where
  "answer_ok cachep ans \<longleftrightarrow>
     (case fst ans of
        None \<Rightarrow> True
      | Some objp \<Rightarrow>
          objp AND 4095 = 0
          \<and> unat objp + 4096 * 2 ^ gfporder cachep \<le> 2 ^ 32
          \<and> list_all (\<lambda>pg. page_slab cachep pg = None) (slab_pages cachep objp)
          \<and> (\<forall>sp \<in> dom (slabs cachep). drop_bit 12 sp \<notin> set (slab_pages cachep objp))
          \<and> (case snd ans of
               None \<Rightarrow> True
             | Some sp \<Rightarrow> CFLGS_OFF_SLAB \<in> flags cachep \<longrightarrow> slabs cachep sp = None))"

text \<open>
  A cache as \<open>kmem_cache_create\<close> leaves it, with sound geometry: no slab, no page,
  empty lists and empty, well-formed arrays.
\<close>

definition fresh_cache :: "topology \<Rightarrow> 'v kmem_cache \<Rightarrow> bool" where
  "fresh_cache topo cachep \<longleftrightarrow>
     geom_ok cachep \<and> slabs cachep = Map.empty \<and> page_slab cachep = Map.empty
     \<and> (\<forall>node l3. nodelists cachep node = Some l3 \<longrightarrow>
          slabs_partial l3 = [] \<and> slabs_full l3 = [] \<and> slabs_free l3 = []
          \<and> colour_next l3 = 0)
     \<and> (\<forall>loc ac. ac_at cachep loc = Some ac \<longrightarrow> avail ac = 0 \<and> ac_ok topo cachep loc ac)"

text \<open>
  The states a cache reaches from a fresh one by allocations (with the refill and the
  growth they bring), by frees of allocated objects that no array holds, and by
  shrinks. A call runs on an online CPU of a node that has its lists.
\<close>

inductive reachable :: "topology \<Rightarrow> 'v kmem_cache \<Rightarrow> bool" for topo where
  reach_fresh: "fresh_cache topo cachep \<Longrightarrow> reachable topo cachep"
| reach_alloc:
    "reachable topo cachep
     \<Longrightarrow> \<forall>ans \<in> set answers. answer_ok cachep ans
     \<Longrightarrow> cache_alloc cachep gflags cpu (cpu_to_node topo cpu) answers = Some (Return (obj, c'))
     \<Longrightarrow> reachable topo c'"
| reach_free:
    "reachable topo cachep
     \<Longrightarrow> allocated cachep objp
     \<Longrightarrow> \<forall>loc ac. ac_at cachep loc = Some ac \<longrightarrow> objp \<notin> set (ac_objs ac)
     \<Longrightarrow> cache_free cachep objp cpu (cpu_to_node topo cpu) = Return c'
     \<Longrightarrow> reachable topo c'"
| reach_shrink:
    "reachable topo cachep \<Longrightarrow> cache_shrink topo cachep = Return (ret, c')
     \<Longrightarrow> reachable topo c'"


text \<open>
  A step that writes to the lists, the slabs and the pages only, and one that may also
  write to the front-ends: neither touches the content of an object, the record of the
  constructor calls or the geometry.
\<close>

definition heap_step :: "'v kmem_cache \<Rightarrow> 'v kmem_cache \<Rightarrow> bool" where
  "heap_step c c' \<longleftrightarrow>
     (\<exists>N S P R L. c' = c\<lparr>nodelists := N, slabs := S, page_slab := P, rcu_pending := R,
         lock_trace := L\<rparr>)"

definition quiet_step :: "'v kmem_cache \<Rightarrow> 'v kmem_cache \<Rightarrow> bool" where
  "quiet_step c c' \<longleftrightarrow>
     (\<exists>A N S P R L. c' = c\<lparr>array := A, nodelists := N, slabs := S, page_slab := P,
                           rcu_pending := R,
         lock_trace := L\<rparr>)"


text \<open>
  The invariant of the slabs and the lists while the slab at \<open>sp\<close> is off the lists:
  every other slab is linked as its \<open>inuse\<close> says, and no list links the slab at \<open>sp\<close>.
\<close>

definition heap_inv_but :: "'v kmem_cache \<Rightarrow> u32 \<Rightarrow> bool" where
  "heap_inv_but cachep sp \<longleftrightarrow>
     geom_ok cachep
     \<and> (\<forall>sp' slabp. slabs cachep sp' = Some slabp \<longrightarrow>
          slab_ok cachep slabp \<and> slab_addr_ok cachep sp' slabp
          \<and> nodelists cachep (nodeid slabp) \<noteq> None
          \<and> (sp' \<noteq> sp \<longrightarrow> slab_linked cachep sp' slabp))
     \<and> (\<forall>node l3. nodelists cachep node = Some l3 \<longrightarrow>
          (\<forall>k. set (l3_list l3 k) \<subseteq> dom (slabs cachep) - {sp} \<and> distinct (l3_list l3 k))
          \<and> (colour_next l3 < colour cachep \<or> colour_next l3 = 0))"

text \<open>
  The shape of an array at a location, and a family \<open>A\<close> of arrays that is sound for the
  slabs of a cache: \<open>arrays_inv\<close> says so of the arrays of the cache itself.
\<close>

definition ac_shape :: "ac_loc \<Rightarrow> array_cache \<Rightarrow> bool" where
  "ac_shape loc ac \<longleftrightarrow>
     length (entry ac) = unat (limit ac) \<and> 0 < unat (limit ac) \<and> unat (limit ac) < 2 ^ 30
     \<and> avail ac \<le> limit ac
     \<and> (case loc of
          CpuArray cpu \<Rightarrow> 0 < sint (batchcount ac) \<and> sint (batchcount ac) \<le> uint (limit ac)
        | SharedArray node \<Rightarrow> True
        | AlienArray node nid \<Rightarrow> True)"

definition arrays_ok ::
  "topology \<Rightarrow> 'v kmem_cache \<Rightarrow> (ac_loc \<Rightarrow> array_cache option) \<Rightarrow> bool" where
  "arrays_ok topo cachep A \<longleftrightarrow>
     (\<forall>loc ac. A loc = Some ac \<longrightarrow> ac_ok topo cachep loc ac)
     \<and> (\<forall>loc ac loc' ac'. A loc = Some ac \<and> A loc' = Some ac' \<and> loc \<noteq> loc'
          \<longrightarrow> set (ac_objs ac) \<inter> set (ac_objs ac') = {})"

text \<open>
  Between two states the objects change by constructor calls only: the record of the
  calls grows by the calls \<open>new\<close>, and an address that is not among them holds what it
  held.
\<close>

definition constructed_only :: "'v kmem_cache \<Rightarrow> 'v kmem_cache \<Rightarrow> bool" where
  "constructed_only c c' \<longleftrightarrow>
     (\<exists>new. ctor_calls c' = ctor_calls c @ new
        \<and> (\<forall>p. p \<notin> set new \<longrightarrow> objmem c' p = objmem c p))"








section \<open>Theorems on cache creation\<close>

lemma create_align_panic:
  "create_align sz align fl = Some (sz1, al1, fl1) \<Longrightarrow> (SLAB_PANIC \<in> fl1) = (SLAB_PANIC \<in> fl)"
  by (auto simp: create_align_def Let_def split: option.splits if_splits)

lemma create_placement_panic:
  "create_placement early sz1 al1 fl1 = (sz2, fl2) \<Longrightarrow> (SLAB_PANIC \<in> fl2) = (SLAB_PANIC \<in> fl1)"
  by (auto simp: create_placement_def split: if_splits)

text \<open>Concrete runs of the parts of \<open>kmem_cache_create\<close>.\<close>

lemma create_align_512: "create_align 512 67108864 {} = Some (512, 67108864, {})"
  by (simp add: create_align_def BYTES_PER_WORD_def ARCH_SLAB_MINALIGN_def)

lemma slab_order_64M:
  "calculate_slab_order 0 67108864 67108864 {CFLGS_OFF_SLAB}
     = Some \<lparr>so_num = 0, so_gfporder = 0, so_left_over = 0\<rparr>"
  by (simp add: calculate_slab_order_def cso_loop.simps cache_estimate_def KMALLOC_MAX_ORDER_def
      PAGE_SIZE_def SLAB_LIMIT_def)

lemma hwcache_ralign_548: "hwcache_ralign 548 32 = Some 32"
  by (simp add: hwcache_ralign.simps)

lemma create_align_548:
  "create_align 548 0 {SLAB_HWCACHE_ALIGN} = Some (548, 32, {SLAB_HWCACHE_ALIGN})"
  by (simp add: create_align_def BYTES_PER_WORD_def ARCH_SLAB_MINALIGN_def cache_line_size_def
      hwcache_ralign_548)

lemma create_placement_548:
  "create_placement False 548 32 {SLAB_HWCACHE_ALIGN}
     = (576, {CFLGS_OFF_SLAB, SLAB_HWCACHE_ALIGN})"
  by (simp add: create_placement_def PAGE_SIZE_def ALIGN_def)

lemma slab_order_576:
  "calculate_slab_order 0 576 32 {CFLGS_OFF_SLAB, SLAB_HWCACHE_ALIGN}
     = Some \<lparr>so_num = 7, so_gfporder = 0, so_left_over = 64\<rparr>"
  by (simp add: calculate_slab_order_def cso_loop.simps cache_estimate_def KMALLOC_MAX_ORDER_def
      PAGE_SIZE_def SLAB_LIMIT_def sizeof_slab_def sizeof_bufctl_def)

lemma created_548:
  "created_cache (kmem_cache_create example_env example_globals (Some ''c'') 548 0
     {SLAB_HWCACHE_ALIGN} None None) \<noteq> None"
  by (simp add: created_cache_def kmem_cache_create_def example_globals_def example_env_def
      BYTES_PER_WORD_def KMALLOC_MAX_SIZE_def KMALLOC_MAX_ORDER_def PAGE_SIZE_def
      create_align_548 create_placement_548 [unfolded PAGE_SIZE_def] slab_order_576 ALIGN_def
      sizeof_slab_def sizeof_bufctl_def cache_line_size_def)

text \<open>
  C4, as the code has it. The sanity checks at the head of \<open>kmem_cache_create\<close> (no name,
  interrupt context, a size below \<open>BYTES_PER_WORD\<close> or above \<open>KMALLOC_MAX_SIZE\<close>, a
  destructor) end in \<open>BUG()\<close>: the call does not return and registers nothing. When the
  search of \<open>calculate_slab_order\<close> leaves \<open>num = 0\<close>, the call returns \<open>NULL\<close> with the
  module's variables, the registry among them, unchanged, unless \<open>SLAB_PANIC\<close> was asked
  for: then it panics.
\<close>

theorem create_failure_modes:
  "(name0 = None \<or> in_interrupt g \<or> sz < BYTES_PER_WORD \<or> sz > KMALLOC_MAX_SIZE \<or> dtor \<noteq> None
      \<longrightarrow> kmem_cache_create env g name0 sz align fl ctor0 dtor = Some BUG)
   \<and> (name0 = Some nm \<and> \<not> in_interrupt g \<and> BYTES_PER_WORD \<le> sz \<and> sz \<le> KMALLOC_MAX_SIZE
        \<and> dtor = None
        \<and> create_align sz align fl = Some (sz1, al1, fl1) \<and> ce_zalloc env = Some p
        \<and> create_placement (slab_early_init g) sz1 al1 fl1 = (sz2, fl2)
        \<and> calculate_slab_order (slab_break_gfp_order g) sz2 al1 fl2 = Some so \<and> so_num so = 0
      \<longrightarrow> kmem_cache_create env g name0 sz align fl ctor0 dtor
            = Some (if SLAB_PANIC \<in> fl then Panic else Return (None, g)))"
proof (intro conjI impI)
  assume "name0 = None \<or> in_interrupt g \<or> sz < BYTES_PER_WORD \<or> sz > KMALLOC_MAX_SIZE
            \<or> dtor \<noteq> None"
  then show "kmem_cache_create env g name0 sz align fl ctor0 dtor = Some BUG"
    by (auto simp: kmem_cache_create_def split: option.splits)
next
  assume a: "name0 = Some nm \<and> \<not> in_interrupt g \<and> BYTES_PER_WORD \<le> sz \<and> sz \<le> KMALLOC_MAX_SIZE
        \<and> dtor = None
        \<and> create_align sz align fl = Some (sz1, al1, fl1) \<and> ce_zalloc env = Some p
        \<and> create_placement (slab_early_init g) sz1 al1 fl1 = (sz2, fl2)
        \<and> calculate_slab_order (slab_break_gfp_order g) sz2 al1 fl2 = Some so \<and> so_num so = 0"
  then have "(SLAB_PANIC \<in> fl2) = (SLAB_PANIC \<in> fl)"
    using create_align_panic create_placement_panic by blast
  with a show "kmem_cache_create env g name0 sz align fl ctor0 dtor
            = Some (if SLAB_PANIC \<in> fl then Panic else Return (None, g))"
    by (simp add: kmem_cache_create_def create_oops_def not_less)
qed

theorem create_failure_modes_witness:
  "kmem_cache_create example_env example_globals (Some ''tiny'') 2 0 {} None None = Some BUG
   \<and> kmem_cache_create example_env example_globals (Some ''wide'') 512 67108864 {} None None
       = Some (Return (None, example_globals))"
proof
  show "kmem_cache_create example_env example_globals (Some ''tiny'') 2 0 {} None None = Some BUG"
    using create_failure_modes [where ?name0.0 = "Some ''tiny''" and g = example_globals
        and sz = 2 and dtor = None and env = example_env and align = 0 and fl = "{}"
        and ?ctor0.0 = None]
    by (simp add: BYTES_PER_WORD_def)
next
  have pl: "create_placement (slab_early_init example_globals) 512 67108864 {}
              = (67108864, {CFLGS_OFF_SLAB})"
    by (simp add: create_placement_def example_globals_def PAGE_SIZE_def ALIGN_def)
  have so: "calculate_slab_order (slab_break_gfp_order example_globals) 67108864 67108864
              {CFLGS_OFF_SLAB} = Some \<lparr>so_num = 0, so_gfporder = 0, so_left_over = 0\<rparr>"
    by (simp add: example_globals_def slab_order_64M)
  show "kmem_cache_create example_env example_globals (Some ''wide'') 512 67108864 {} None None
       = Some (Return (None, example_globals))"
    using create_failure_modes [where ?name0.0 = "Some ''wide''" and nm = "''wide''"
        and g = example_globals and sz = 512 and dtor = None and env = example_env
        and align = 67108864 and fl = "{}" and ?ctor0.0 = None and ?sz1.0 = 512
        and ?al1.0 = 67108864 and ?fl1.0 = "{}" and p = "0x1000" and ?sz2.0 = 67108864
        and ?fl2.0 = "{CFLGS_OFF_SLAB}"
        and so = "\<lparr>so_num = 0, so_gfporder = 0, so_left_over = 0\<rparr>"] create_align_512 pl so
    by (simp add: example_globals_def example_env_def BYTES_PER_WORD_def KMALLOC_MAX_SIZE_def
        KMALLOC_MAX_ORDER_def PAGE_SIZE_def)
qed

text \<open>
  C4 as stated fails: a creation with an object size of 2 bytes, below the word size,
  does not return the no-cache result; it stops at \<open>BUG()\<close>.
\<close>

theorem create_small_size_counterexample:
  "kmem_cache_create example_env example_globals (Some ''tiny'') 2 0 {} None None = Some BUG
   \<and> kmem_cache_create example_env example_globals (Some ''tiny'') 2 0 {} None None
       \<noteq> Some (Return (None, example_globals))"
  by (simp add: kmem_cache_create_def example_globals_def BYTES_PER_WORD_def)

text \<open>
  C5 at the input \<open>kmem_cache_create(name, 8, 8192, 0, NULL, NULL)\<close>: the object is small,
  so the management stays on the slab, and \<open>ALIGN\<close> makes the object size 8192. At order 0
  \<open>cache_estimate\<close> computes \<open>nr_objs = 0\<close>, finds the management alone (8192 bytes)
  larger than the slab (4096 bytes) and decrements \<open>nr_objs\<close> to -1, which the unsigned
  comparison with \<open>SLAB_LIMIT\<close> turns into 4294967292. The order at which no object fits
  is not skipped: it is the one the cache is created with.
\<close>

theorem estimate_wraps_for_wide_alignment:
  "cache_estimate 0 8192 8192 {} = Some (28672, 4294967292)
   \<and> slab_mgmt_size 0 8192 = 8192
   \<and> map_option num (created_cache (kmem_cache_create example_env example_globals
        (Some ''wide'') 8 8192 {} None None)) = Some 4294967292
   \<and> map_option gfporder (created_cache (kmem_cache_create example_env example_globals
        (Some ''wide'') 8 8192 {} None None)) = Some 0
   \<and> map_option buffer_size (created_cache (kmem_cache_create example_env example_globals
        (Some ''wide'') 8 8192 {} None None)) = Some 8192"
proof -
  have ce: "cache_estimate 0 8192 8192 {} = Some (28672, 4294967292)"
    by (simp add: cache_estimate_def PAGE_SIZE_def SLAB_LIMIT_def sizeof_slab_def
        sizeof_bufctl_def slab_mgmt_size_def ALIGN_def)
  have so: "calculate_slab_order 0 8192 8192 {}
              = Some \<lparr>so_num = 4294967292, so_gfporder = 0, so_left_over = 28672\<rparr>"
    by (simp add: calculate_slab_order_def cso_loop.simps ce KMALLOC_MAX_ORDER_def)
  have ca: "create_align 8 8192 {} = Some (8, 8192, {})"
    by (simp add: create_align_def BYTES_PER_WORD_def ARCH_SLAB_MINALIGN_def)
  have pl: "create_placement False 8 8192 {} = (8192, {})"
    by (simp add: create_placement_def PAGE_SIZE_def ALIGN_def)
  have mg: "slab_mgmt_size 0 8192 = 8192"
    by (simp add: slab_mgmt_size_def ALIGN_def sizeof_slab_def sizeof_bufctl_def)
  from ce mg so ca pl show ?thesis
    by (simp add: created_cache_def kmem_cache_create_def example_globals_def example_env_def
        BYTES_PER_WORD_def KMALLOC_MAX_SIZE_def KMALLOC_MAX_ORDER_def PAGE_SIZE_def)
qed

text \<open>
  C6: when the management was placed off the slab and the bytes left over by the objects
  are at least the aligned size of the management, the created cache has it on the slab,
  with that size, and its colour count is computed from the left-over bytes less exactly
  that size. Equality is enough.
\<close>

theorem offslab_moved_back_on_slab:
  assumes "created_cache (kmem_cache_create env g name0 sz align fl ctor0 dtor) = Some c"
    and "create_align sz align fl = Some (sz1, al1, fl1)"
    and "create_placement (slab_early_init g) sz1 al1 fl1 = (sz2, fl2)"
    and "CFLGS_OFF_SLAB \<in> fl2"
    and "calculate_slab_order (slab_break_gfp_order g) sz2 al1 fl2 = Some so"
    and "so_left_over so \<ge> ALIGN (so_num so * sizeof_bufctl + sizeof_slab) al1"
  shows "CFLGS_OFF_SLAB \<notin> flags c
         \<and> slab_size c = ALIGN (so_num so * sizeof_bufctl + sizeof_slab) al1
         \<and> colour c
             = (so_left_over so - ALIGN (so_num so * sizeof_bufctl + sizeof_slab) al1)
               div colour_off c"
  using assms
  by (auto simp: created_cache_def kmem_cache_create_def Let_def create_oops_def
      split: option.splits if_splits)

theorem offslab_moved_back_on_slab_witness:
  "so_left_over \<lparr>so_num = 7, so_gfporder = 0, so_left_over = 64\<rparr>
     = ALIGN (7 * sizeof_bufctl + sizeof_slab) 32
   \<and> CFLGS_OFF_SLAB \<notin> flags (the (created_cache (kmem_cache_create example_env
        example_globals (Some ''c'') 548 0 {SLAB_HWCACHE_ALIGN} None None)))
   \<and> slab_size (the (created_cache (kmem_cache_create example_env
        example_globals (Some ''c'') 548 0 {SLAB_HWCACHE_ALIGN} None None))) = 64
   \<and> colour (the (created_cache (kmem_cache_create example_env
        example_globals (Some ''c'') 548 0 {SLAB_HWCACHE_ALIGN} None None))) = 0"
proof -
  have eq: "ALIGN (7 * sizeof_bufctl + sizeof_slab) 32 = 64"
    by (simp add: ALIGN_def sizeof_bufctl_def sizeof_slab_def)
  have early: "slab_early_init example_globals = False"
    and brk: "slab_break_gfp_order example_globals = 0"
    by (simp_all add: example_globals_def)
  show ?thesis
    using offslab_moved_back_on_slab [where env = example_env and g = example_globals
        and ?name0.0 = "Some ''c''" and sz = 548 and align = 0 and fl = "{SLAB_HWCACHE_ALIGN}"
        and ?ctor0.0 = None and dtor = None and ?sz1.0 = 548 and ?al1.0 = 32
        and ?fl1.0 = "{SLAB_HWCACHE_ALIGN}" and ?sz2.0 = 576
        and ?fl2.0 = "{CFLGS_OFF_SLAB, SLAB_HWCACHE_ALIGN}"
        and so = "\<lparr>so_num = 7, so_gfporder = 0, so_left_over = 64\<rparr>"
        and c = "the (created_cache (kmem_cache_create example_env example_globals
                   (Some ''c'') 548 0 {SLAB_HWCACHE_ALIGN} None None))"]
      created_548 create_align_548 create_placement_548 slab_order_576
    by (simp add: eq early brk)
qed

lemma create_align_68: "create_align 68 64 {} = Some (68, 64, {})"
  by (simp add: create_align_def BYTES_PER_WORD_def ARCH_SLAB_MINALIGN_def)

lemma create_placement_68: "create_placement False 68 64 {} = (128, {})"
  by (simp add: create_placement_def PAGE_SIZE_def ALIGN_def)

lemma slab_order_128:
  "calculate_slab_order 0 128 64 {}
     = Some \<lparr>so_num = 30, so_gfporder = 0, so_left_over = 64\<rparr>"
  by (simp add: calculate_slab_order_def cso_loop.simps cache_estimate_def KMALLOC_MAX_ORDER_def
      PAGE_SIZE_def SLAB_LIMIT_def sizeof_slab_def sizeof_bufctl_def slab_mgmt_size_def ALIGN_def)

lemma create_align_8: "create_align 8 0 {} = Some (8, 4, {})"
  by (simp add: create_align_def BYTES_PER_WORD_def ARCH_SLAB_MINALIGN_def)

lemma create_placement_8: "create_placement False 8 4 {} = (8, {})"
  by (simp add: create_placement_def PAGE_SIZE_def ALIGN_def)

lemma slab_order_8:
  "calculate_slab_order 0 8 4 {}
     = Some \<lparr>so_num = 339, so_gfporder = 0, so_left_over = 0\<rparr>"
  by (simp add: calculate_slab_order_def cso_loop.simps cache_estimate_def KMALLOC_MAX_ORDER_def
      PAGE_SIZE_def SLAB_LIMIT_def sizeof_slab_def sizeof_bufctl_def slab_mgmt_size_def ALIGN_def)

lemma created_8:
  "created_cache (kmem_cache_create example_env example_globals (Some ''c'') 8 0 {} None None)
     \<noteq> None"
  by (simp add: created_cache_def kmem_cache_create_def example_globals_def example_env_def
      BYTES_PER_WORD_def KMALLOC_MAX_SIZE_def KMALLOC_MAX_ORDER_def PAGE_SIZE_def
      create_align_8 create_placement_8 [unfolded PAGE_SIZE_def] slab_order_8 ALIGN_def
      sizeof_slab_def sizeof_bufctl_def cache_line_size_def)

text \<open>
  C7, as the code has it. The colouring unit \<open>colour_off\<close> of a created cache is the larger
  of the cache-line size and the final alignment of the objects, and the colour count is
  the number of such units in the bytes left over (after the management has moved onto
  the slab, where it does). With no bytes left over the count is 0; with a count of 0,
  \<open>cache_grow\<close> gives every slab the colour offset 0 and leaves \<open>colour_next\<close> at 0, where
  \<open>kmem_list3_init\<close> has put it.
\<close>

theorem colour_count_of_created_cache:
  assumes "created_cache (kmem_cache_create env g name0 sz align fl ctor0 dtor) = Some c"
    and "create_align sz align fl = Some (sz1, al1, fl1)"
    and "create_placement (slab_early_init g) sz1 al1 fl1 = (sz2, fl2)"
    and "calculate_slab_order (slab_break_gfp_order g) sz2 al1 fl2 = Some so"
    and "left_over = (if CFLGS_OFF_SLAB \<in> fl2
                         \<and> so_left_over so \<ge> ALIGN (so_num so * sizeof_bufctl + sizeof_slab) al1
                      then so_left_over so - ALIGN (so_num so * sizeof_bufctl + sizeof_slab) al1
                      else so_left_over so)"
  shows "colour_off c = max cache_line_size al1
         \<and> colour c = left_over div max cache_line_size al1
         \<and> (left_over = 0 \<longrightarrow> colour c = 0)
         \<and> (colour c = 0 \<and> colour_next l3 = 0 \<longrightarrow> grow_colour c l3 = (0, l3))"
proof -
  from assms have co: "colour_off c = max cache_line_size al1"
    and cl: "colour c = left_over div max cache_line_size al1"
    by (auto simp: created_cache_def kmem_cache_create_def Let_def create_oops_def max_def
        split: option.splits if_splits)
  have "grow_colour c l3 = (0, l3)" if "colour c = 0" "colour_next l3 = 0"
    using that by (simp add: grow_colour_def Let_def)
  with co cl show ?thesis
    by simp
qed

theorem colour_count_of_created_cache_witness:
  "colour_off (the (created_cache (kmem_cache_create example_env example_globals
        (Some ''c'') 8 0 {} None None))) = 32
   \<and> colour (the (created_cache (kmem_cache_create example_env example_globals
        (Some ''c'') 8 0 {} None None))) = 0
   \<and> grow_colour (the (created_cache (kmem_cache_create example_env example_globals
        (Some ''c'') 8 0 {} None None))) kmem_list3_init = (0, kmem_list3_init)"
proof -
  have early: "slab_early_init example_globals = False"
    and brk: "slab_break_gfp_order example_globals = 0"
    by (simp_all add: example_globals_def)
  have cn: "colour_next kmem_list3_init = 0"
    by (simp add: kmem_list3_init_def)
  show ?thesis
    using colour_count_of_created_cache [where env = example_env and g = example_globals
        and ?name0.0 = "Some ''c''" and sz = 8 and align = 0 and fl = "{}"
        and ?ctor0.0 = None and dtor = None and ?sz1.0 = 8 and ?al1.0 = 4
        and ?fl1.0 = "{}" and ?sz2.0 = 8 and ?fl2.0 = "{}"
        and so = "\<lparr>so_num = 339, so_gfporder = 0, so_left_over = 0\<rparr>"
        and left_over = 0 and ?l3.0 = kmem_list3_init
        and c = "the (created_cache (kmem_cache_create example_env example_globals
                   (Some ''c'') 8 0 {} None None))"]
      created_8 create_align_8 create_placement_8 slab_order_8
    by (simp add: early brk cn cache_line_size_def)
qed

text \<open>
  C7 as stated fails: an object of 68 bytes with an alignment of 64 leaves 64 bytes over,
  two cache lines of 32 bytes, and the cache is created with one colour.
\<close>

theorem colour_unit_counterexample:
  "calculate_slab_order 0 128 64 {} = Some \<lparr>so_num = 30, so_gfporder = 0, so_left_over = 64\<rparr>
   \<and> (64 :: u32) div cache_line_size = 2
   \<and> map_option colour (created_cache (kmem_cache_create example_env example_globals
        (Some ''c'') 68 64 {} None None)) = Some 1"
  using slab_order_128
  by (simp add: created_cache_def kmem_cache_create_def example_globals_def example_env_def
      BYTES_PER_WORD_def KMALLOC_MAX_SIZE_def KMALLOC_MAX_ORDER_def PAGE_SIZE_def
      create_align_68 create_placement_68 [unfolded PAGE_SIZE_def] ALIGN_def
      sizeof_slab_def sizeof_bufctl_def cache_line_size_def)

section \<open>Running the model\<close>

lemma obind_Return_iff:
  "obind m f = Return y \<longleftrightarrow> (\<exists>x. m = Return x \<and> f x = Return y)"
  by (cases m) (simp_all add: obind_def)


lemma replicate_numeral: "replicate (numeral k) x = x # replicate (pred_numeral k) x"
  by (simp add: numeral_eq_Suc)

lemma list_update_numeral: "(x # xs)[numeral k := y] = x # xs[pred_numeral k := y]"
  by (simp add: numeral_eq_Suc)

lemmas run_simps =
  replicate_numeral list_update_numeral
  obind_def obind_opt_def get_ac_def get_l3_def get_slab_def set_ac_def set_l3_def
  set_slab_def kmem_list3_init_def Let_def returned_def returned_opt_def
  cache_alloc_def cache_alloc_refill.simps refill_pass_def refill_from_lists.simps
  pick_slab_def BATCHREFILL_LIMIT_def refill_done_def ac_take_def ac_put_def
  slab_get_obj_def refill_from_slab.simps relink_after_alloc_def list_del_def l3_del_def
  cache_grow_def grow_colour_def alloc_slabmgmt_def slab_map_pages_def slab_pages_def
  cache_init_objs_def init_objs_loop.simps call_ctor_def index_to_obj_def BUFCTL_END_def

lemma example_cache_used_fields:
  "array example_cache_used 0
     = Some \<lparr>avail = 0, limit = 2, batchcount = 1, touched = 1, entry = [0x10040, 0]\<rparr>"
  "nodelists example_cache_used 0
     = Some \<lparr>slabs_partial = [0x10000], slabs_full = [], slabs_free = [], free_objects = 1,
             free_limit = 3, colour_next = 0, shared = None, alien = None, free_touched = 1\<rparr>"
  "slabs example_cache_used 0x10000
     = Some \<lparr>colouroff = 64, s_mem = 0x10040, inuse = 1, free = 1, nodeid = 0,
             bufctl = [1, 0xFFFFFFFF]\<rparr>"
  "page_slab example_cache_used 0x10 = Some 0x10000"
  "ctor_calls example_cache_used = [0x10040, 0x10080]"
  "num example_cache_used = 2" "buffer_size example_cache_used = 64"
  "flags example_cache_used = {}"
  by (simp_all add: example_cache_used_def example_cache_def run_simps)

section \<open>Theorems on shrinking and destruction\<close>

lemma no_busy_list_del: "no_busy_slabs c n \<Longrightarrow> no_busy_slabs (list_del sp c) n"
  by (auto simp: no_busy_slabs_def list_del_def l3_del_def split: option.splits)

lemma no_busy_set_l3_same:
  "nodelists c node = Some l3 \<Longrightarrow> slabs_full l3' = slabs_full l3
   \<Longrightarrow> slabs_partial l3' = slabs_partial l3
   \<Longrightarrow> no_busy_slabs c n \<Longrightarrow> no_busy_slabs (set_l3 c node l3') n"
  by (auto simp: no_busy_slabs_def set_l3_def split: option.splits)

lemma nodelists_kmem_freepages:
  "kmem_freepages c addr = Return c' \<Longrightarrow> nodelists c' = nodelists c"
  by (auto simp: kmem_freepages_def split: if_splits)

lemma nodelists_slab_destroy:
  "slab_destroy c sp = Return c' \<Longrightarrow> nodelists c' = nodelists c"
  by (auto simp: slab_destroy_def obind_Return_iff Let_def
      dest!: nodelists_kmem_freepages split: if_splits)

lemma drain_freelist_stop:
  "\<not> nr_freed < tofree \<Longrightarrow> drain_freelist c node tofree nr_freed = Return (nr_freed, c)"
  by (subst drain_freelist.simps) simp

lemma drain_freelist_empty:
  "nr_freed < tofree \<Longrightarrow> get_l3 c node = Return l3 \<Longrightarrow> slabs_free l3 = []
   \<Longrightarrow> drain_freelist c node tofree nr_freed = Return (nr_freed, c)"
  by (subst drain_freelist.simps) (simp add: obind_def)

lemma drain_freelist_step:
  "nr_freed < tofree \<Longrightarrow> get_l3 c node = Return l3 \<Longrightarrow> slabs_free l3 \<noteq> []
   \<Longrightarrow> drain_freelist c node tofree nr_freed =
       obind (get_l3 (list_del (last (slabs_free l3)) c) node) (\<lambda>l3'.
         obind (slab_destroy
                  (set_l3 (list_del (last (slabs_free l3)) c) node
                     (l3'\<lparr>free_objects :=
                            free_objects l3' - num (list_del (last (slabs_free l3)) c)\<rparr>))
                  (last (slabs_free l3)))
           (\<lambda>c. drain_freelist c node tofree (nr_freed + 1)))"
  by (subst drain_freelist.simps) (simp add: obind_def Let_def)

lemma no_busy_drain_freelist:
  "drain_freelist c node tofree k = Return (r, c') \<Longrightarrow> no_busy_slabs c n \<Longrightarrow> no_busy_slabs c' n"
proof (induction c node tofree k arbitrary: r c' rule: drain_freelist.induct)
  case (1 cachep node tofree nr_freed)
  show ?case
  proof (cases "nr_freed < tofree")
    case False
    with "1.prems" show ?thesis
      by (simp add: drain_freelist_stop)
  next
    case True
    from "1.prems"(1) True obtain l3 where l3: "get_l3 cachep node = Return l3"
      by (subst (asm) drain_freelist.simps) (cases "get_l3 cachep node"; simp add: obind_def)
    show ?thesis
    proof (cases "slabs_free l3 = []")
      case True
      with "1.prems" \<open>nr_freed < tofree\<close> l3 show ?thesis
        by (simp add: drain_freelist_empty)
    next
      case False
      define sp where "sp = last (slabs_free l3)"
      define c1 where "c1 = list_del sp cachep"
      from "1.prems"(1) have
        "obind (get_l3 c1 node) (\<lambda>l3'.
           obind (slab_destroy
                    (set_l3 c1 node (l3'\<lparr>free_objects := free_objects l3' - num c1\<rparr>)) sp)
             (\<lambda>c. drain_freelist c node tofree (nr_freed + 1))) = Return (r, c')"
        unfolding c1_def sp_def using drain_freelist_step [OF True l3 False] by simp
      then obtain l3' c2 where
        l3': "get_l3 c1 node = Return l3'"
        and d: "slab_destroy
                  (set_l3 c1 node (l3'\<lparr>free_objects := free_objects l3' - num c1\<rparr>)) sp
                = Return c2"
        and r: "drain_freelist c2 node tofree (nr_freed + 1) = Return (r, c')"
        by (auto simp only: obind_Return_iff)
      have "no_busy_slabs c1 n"
        unfolding c1_def using "1.prems"(2) by (rule no_busy_list_del)
      moreover from l3' have "nodelists c1 node = Some l3'"
        by (auto simp: get_l3_def split: option.splits)
      ultimately have
        "no_busy_slabs (set_l3 c1 node (l3'\<lparr>free_objects := free_objects l3' - num c1\<rparr>)) n"
        by (auto intro: no_busy_set_l3_same)
      with nodelists_slab_destroy [OF d] have nb: "no_busy_slabs c2 n"
        by (simp add: no_busy_slabs_def)
      show ?thesis
        by (rule "1.IH" [OF True l3 False sp_def c1_def l3' d r nb])
    qed
  qed
qed

lemma shrink_nodes_zero:
  "shrink_nodes c nodes ret = Return (r, c') \<Longrightarrow> 0 \<le> ret \<Longrightarrow> \<forall>n\<in>S. no_busy_slabs c n
   \<Longrightarrow> ret \<le> r \<and> (r = 0 \<longrightarrow> (\<forall>n\<in>S \<union> set nodes. no_busy_slabs c' n))"
proof (induction nodes arbitrary: c ret S)
  case Nil
  then show ?case by simp
next
  case (Cons i nodes)
  show ?case
  proof (cases "nodelists c i")
    case None
    with Cons.prems have r: "shrink_nodes c nodes ret = Return (r, c')"
      by simp
    from None have "no_busy_slabs c i"
      by (simp add: no_busy_slabs_def)
    with Cons.prems have "\<forall>n\<in>insert i S. no_busy_slabs c n"
      by simp
    from Cons.IH [OF r Cons.prems(2) this] show ?thesis
      by simp
  next
    case (Some l3)
    with Cons.prems(1) obtain freed c1 l3' where
      d: "drain_freelist c i (sint (free_objects l3)) 0 = Return (freed, c1)"
      and g: "get_l3 c1 i = Return l3'"
      and r: "shrink_nodes c1 nodes
                (ret + (if slabs_full l3' \<noteq> [] \<or> slabs_partial l3' \<noteq> [] then 1 else 0))
              = Return (r, c')"
      by (auto simp: obind_Return_iff)
    have S1: "\<forall>n\<in>S. no_busy_slabs c1 n"
      using Cons.prems(3) no_busy_drain_freelist [OF d] by blast
    show ?thesis
    proof (cases "slabs_full l3' \<noteq> [] \<or> slabs_partial l3' \<noteq> []")
      case True
      with r have "shrink_nodes c1 nodes (ret + 1) = Return (r, c')"
        by simp
      from Cons.IH [OF this _ S1] Cons.prems(2) show ?thesis
        by simp
    next
      case False
      with g have "no_busy_slabs c1 i"
        by (auto simp: no_busy_slabs_def get_l3_def split: option.splits)
      with S1 have S2: "\<forall>n\<in>insert i S. no_busy_slabs c1 n"
        by simp
      from False r have "shrink_nodes c1 nodes ret = Return (r, c')"
        by simp
      from Cons.IH [OF this Cons.prems(2) S2] show ?thesis
        by simp
    qed
  qed
qed

lemma cache_shrink_result:
  assumes "cache_shrink topo c = Return (ret, c')"
  shows "(ret = 0 \<or> ret = 1)
         \<and> (ret = 0 \<longrightarrow> (\<forall>n\<in>set (online_nodes topo). no_busy_slabs c' n))"
proof -
  from assms obtain c1 r where
    s: "shrink_nodes c1 (online_nodes topo) 0 = Return (r, c')"
    and ret: "ret = (if r \<noteq> 0 then 1 else 0)"
    by (auto simp: cache_shrink_def obind_Return_iff)
  from shrink_nodes_zero [OF s, of "{}"] ret show ?thesis
    by auto
qed

text \<open>
  C10. \<open>kmem_cache_destroy\<close> of a registered cache, outside interrupt context, returns.
  When \<open>__cache_shrink\<close> reports slabs that remain (\<open>ret\<close> is not 0) the cache is in the
  registry afterwards, its descriptor holds the shrunk cache, nothing more is freed, and
  \<open>slab_error\<close> has printed its message. When it reports none, the cache is out of the
  registry and its descriptor is freed, and then no online node has a full or a partial
  slab. So a cache that has a full or a partial slab left after the shrink is kept.
\<close>

theorem destroy_keeps_busy_cache:
  assumes "\<not> in_interrupt g" and "cache_mem g p = Some cachep"
    and "cache_shrink topo cachep = Return (ret, c')"
  shows "\<exists>g'. kmem_cache_destroy topo g (Some p) = Return g'
           \<and> (ret \<noteq> 0 \<longrightarrow> p \<in> set (cache_chain g') \<and> cache_mem g' p = Some c'
                 \<and> slab_errors g' = slab_errors g @ [''Can'' @ [CHR 0x27] @ ''t free all objects''])
           \<and> (ret = 0 \<longrightarrow> p \<notin> set (cache_chain g') \<and> cache_mem g' p = None
                 \<and> (\<forall>n\<in>set (online_nodes topo). no_busy_slabs c' n))
           \<and> ((\<exists>n\<in>set (online_nodes topo). \<not> no_busy_slabs c' n) \<longrightarrow> ret \<noteq> 0)"
proof (cases "ret = 0")
  case True
  with assms have "kmem_cache_destroy topo g (Some p)
      = Return (g\<lparr>cache_chain := removeAll p (cache_chain g),
                   cache_mem := (cache_mem g)(p := None)\<rparr>)"
    by (simp add: kmem_cache_destroy_def obind_def)
  with True cache_shrink_result [OF assms(3)] show ?thesis
    by auto
next
  case False
  with assms have "kmem_cache_destroy topo g (Some p)
      = Return (g\<lparr>cache_chain := removeAll p (cache_chain g),
                   slab_errors := slab_errors g @ [''Can'' @ [CHR 0x27] @ ''t free all objects''],
                   cache_chain := p # removeAll p (cache_chain g),
                   cache_mem := (cache_mem g)(p \<mapsto> c')\<rparr>)"
    by (simp add: kmem_cache_destroy_def obind_def)
  with False show ?thesis
    by auto
qed

lemma shrink_example_cache_used:
  "\<exists>c'. cache_shrink example_topology example_cache_used = Return (1, c')"
  by (simp add: cache_shrink_def drain_cpu_caches_def example_topology_def do_drain_def
      drain_shared_def drain_array_def drain_freelist.simps free_block_def
      example_cache_used_fields obind_def get_ac_def get_l3_def set_ac_def set_l3_def)

theorem destroy_keeps_busy_cache_witness:
  "map_option cache_chain
      (returned (kmem_cache_destroy example_topology example_registry (Some 0x1000)))
     = Some [0x1000]
   \<and> map_option slab_errors
      (returned (kmem_cache_destroy example_topology example_registry (Some 0x1000)))
     = Some [''Can'' @ [CHR 0x27] @ ''t free all objects'']"
proof -
  obtain c' where s: "cache_shrink example_topology example_cache_used = Return (1, c')"
    using shrink_example_cache_used by blast
  have i: "\<not> in_interrupt example_registry"
    and m: "cache_mem example_registry 0x1000 = Some example_cache_used"
    by (simp_all add: example_registry_def example_globals_def)
  from destroy_keeps_busy_cache [OF i m s] obtain g' where
    d: "kmem_cache_destroy example_topology example_registry (Some 0x1000) = Return g'"
    and e: "slab_errors g' = slab_errors example_registry @ [''Can'' @ [CHR 0x27] @ ''t free all objects'']"
    by auto
  have "cache_chain g' = [0x1000]"
    using d s m
    by (auto simp: kmem_cache_destroy_def example_registry_def example_globals_def obind_def)
  with d e show ?thesis
    by (simp add: returned_def example_registry_def example_globals_def)
qed

section \<open>Free lists of slabs\<close>

lemma free_chain_length: "free_chain n b f = Some xs \<Longrightarrow> length xs \<le> n"
  by (induction n arbitrary: f xs) (auto split: if_splits)

lemma free_chain_fuel:
  "free_chain n b f = Some xs \<Longrightarrow> length xs \<le> m \<Longrightarrow> free_chain m b f = Some xs"
proof (induction n arbitrary: f xs m)
  case 0
  then show ?case by (cases m) (auto split: if_splits)
next
  case (Suc n)
  show ?case
  proof (cases "f = BUFCTL_END")
    case True
    with Suc.prems show ?thesis by (cases m) auto
  next
    case False
    with Suc.prems obtain ys where ys: "free_chain n b (b ! unat f) = Some ys" "xs = f # ys"
      and lt: "unat f < length b"
      by (auto split: if_splits)
    with Suc.prems obtain m' where m': "m = Suc m'" "length ys \<le> m'"
      by (cases m) auto
    from Suc.IH [OF ys(1) m'(2)] False lt ys m' show ?thesis
      by simp
  qed
qed

lemma free_chain_members:
  "free_chain n b f = Some xs \<Longrightarrow> x \<in> set xs \<Longrightarrow> unat x < length b \<and> x \<noteq> BUFCTL_END"
  by (induction n arbitrary: f xs) (auto split: if_splits)

lemma free_chain_Nil_iff: "free_chain n b f = Some [] \<longleftrightarrow> f = BUFCTL_END"
  by (cases n) (auto split: if_splits)

lemma free_chain_ConsD:
  assumes "free_chain n b f = Some (x # xs)"
  shows "f = x \<and> x \<noteq> BUFCTL_END \<and> unat x < length b
         \<and> free_chain (n - 1) b (b ! unat x) = Some xs \<and> 0 < n"
  using assms by (cases n) (auto split: if_splits)

lemma free_chain_update:
  "free_chain n b f = Some xs \<Longrightarrow> i \<notin> unat ` set xs \<Longrightarrow> free_chain n (b[i := v]) f = Some xs"
proof (induction n arbitrary: f xs)
  case 0
  then show ?case by (auto split: if_splits)
next
  case (Suc n)
  show ?case
  proof (cases "f = BUFCTL_END")
    case True
    with Suc.prems show ?thesis by auto
  next
    case False
    with Suc.prems obtain ys where ys: "free_chain n b (b ! unat f) = Some ys" "xs = f # ys"
      and lt: "unat f < length b"
      by (auto split: if_splits)
    from Suc.prems(2) ys have ne: "i \<noteq> unat f" and ni: "i \<notin> unat ` set ys"
      by auto
    from Suc.IH [OF ys(1) ni] False lt ne ys show ?thesis
      by simp
  qed
qed

lemma distinct_bounded_length:
  assumes "distinct (xs :: u32 list)" and "\<forall>x\<in>set xs. unat x < n"
  shows "length xs \<le> n"
proof -
  have "inj_on unat (set xs)"
    by (simp add: inj_on_def word_unat_eq_iff)
  then have "card (unat ` set xs) = card (set xs)"
    by (rule card_image)
  also have "\<dots> = length xs"
    using assms(1) by (rule distinct_card)
  finally have "length xs = card (unat ` set xs)" by simp
  also have "\<dots> \<le> card {..<n}"
    using assms(2) by (intro card_mono) auto
  finally show ?thesis by simp
qed

section \<open>Taking an object from a slab, and putting one back\<close>

lemma slab_ok_free_idxs:
  "slab_ok c s \<Longrightarrow> free_chain (unat (num c)) (bufctl s) (free s) = Some (free_idxs c s)"
  by (auto simp: slab_ok_def free_idxs_def split: option.splits)

lemma slab_ok_count:
  "slab_ok c s \<Longrightarrow> length (free_idxs c s) + unat (inuse s) = unat (num c)
     \<and> distinct (free_idxs c s) \<and> length (bufctl s) = unat (num c)"
  by (auto simp: slab_ok_def free_idxs_def split: option.splits)

lemma slab_ok_inuse_le: "slab_ok c s \<Longrightarrow> inuse s \<le> num c"
  using slab_ok_count [of c s] by (simp add: word_le_nat_alt)

lemma slab_ok_free_end_iff:
  assumes "slab_ok c s"
  shows "free s = BUFCTL_END \<longleftrightarrow> inuse s = num c"
proof -
  from slab_ok_free_idxs [OF assms] have "free_idxs c s = [] \<longleftrightarrow> free s = BUFCTL_END"
    using free_chain_Nil_iff [of "unat (num c)" "bufctl s" "free s"] by auto
  moreover from slab_ok_count [OF assms] have "free_idxs c s = [] \<longleftrightarrow> unat (inuse s) = unat (num c)"
    by auto
  ultimately show ?thesis
    by (simp add: word_unat_eq_iff)
qed

lemma unat_plus_one: "(x :: u32) < y \<Longrightarrow> unat (x + 1) = unat x + 1"
proof -
  assume "x < y"
  then have "unat x < unat y" by (simp add: word_less_nat_alt)
  then have "unat x + unat (1 :: u32) < 2 ^ LENGTH(32)"
    using unsigned_less [of y, where ?'a = nat] by simp
  then show ?thesis
    using unat_add_lem [of x 1] by simp
qed

lemma slab_get_obj_ok:
  assumes ok: "slab_ok c s" and lt: "inuse s < num c"
  shows "\<exists>s'. slab_get_obj c s = Return (index_to_obj c s (free s), s')
          \<and> s' = s\<lparr>inuse := inuse s + 1, free := bufctl s ! unat (free s)\<rparr>
          \<and> slab_ok c s' \<and> free_idxs c s = free s # free_idxs c s'
          \<and> free s < num c"
proof -
  from slab_ok_count [OF ok] lt obtain x xs where xs: "free_idxs c s = x # xs"
    by (cases "free_idxs c s") (auto simp: word_less_nat_alt)
  from slab_ok_free_idxs [OF ok] xs
  have ch: "free_chain (unat (num c)) (bufctl s) (free s) = Some (x # xs)" by simp
  from free_chain_ConsD [OF ch] have x: "free s = x" "unat x < length (bufctl s)"
    and ch': "free_chain (unat (num c) - 1) (bufctl s) (bufctl s ! unat x) = Some xs"
    by auto
  define s' where "s' = s\<lparr>inuse := inuse s + 1, free := bufctl s ! unat (free s)\<rparr>"
  from slab_ok_count [OF ok] xs have cnt: "Suc (length xs) + unat (inuse s) = unat (num c)"
    and d: "distinct (x # xs)" and len: "length (bufctl s) = unat (num c)"
    by auto
  have ch2: "free_chain (unat (num c)) (bufctl s') (free s') = Some xs"
    using free_chain_fuel [OF ch'] cnt x by (simp add: s'_def)
  have "slab_ok c s'"
    using ch2 d cnt len unat_plus_one [OF lt] by (simp add: slab_ok_def s'_def)
  moreover have "free_idxs c s' = xs"
    using ch2 by (simp add: free_idxs_def)
  moreover have "slab_get_obj c s = Return (index_to_obj c s (free s), s')"
    using x by (simp add: slab_get_obj_def s'_def)
  moreover have "free s < num c"
    using x len by (simp add: word_less_nat_alt)
  ultimately show ?thesis
    using xs x s'_def by auto
qed

lemma slab_put_obj_ok:
  assumes ok: "slab_ok c s" and idx: "obj_to_index c s objp < num c"
    and nf: "obj_to_index c s objp \<notin> set (free_idxs c s)" and lim: "num c \<le> SLAB_LIMIT"
  shows "\<exists>s'. slab_put_obj c s objp = Return s'
          \<and> s' = s\<lparr>bufctl := (bufctl s)[unat (obj_to_index c s objp) := free s],
                   free := obj_to_index c s objp, inuse := inuse s - 1\<rparr>
          \<and> slab_ok c s' \<and> free_idxs c s' = obj_to_index c s objp # free_idxs c s
          \<and> inuse s \<noteq> 0 \<and> unat (inuse s') + 1 = unat (inuse s)"
proof -
  define i where "i = obj_to_index c s objp"
  define xs where "xs = free_idxs c s"
  define s' where "s' = s\<lparr>bufctl := (bufctl s)[unat i := free s], free := i, inuse := inuse s - 1\<rparr>"
  from slab_ok_count [OF ok] have cnt: "length xs + unat (inuse s) = unat (num c)"
    and d: "distinct xs" and len: "length (bufctl s) = unat (num c)"
    by (auto simp: xs_def)
  from slab_ok_free_idxs [OF ok]
  have ch: "free_chain (unat (num c)) (bufctl s) (free s) = Some xs" by (simp add: xs_def)
  from idx have ilt: "unat i < unat (num c)" by (simp add: i_def word_less_nat_alt)
  have "\<forall>x\<in>set (i # xs). unat x < unat (num c)"
    using free_chain_members [OF ch] ilt len by auto
  moreover have "distinct (i # xs)" using d nf by (simp add: i_def xs_def)
  ultimately have "length (i # xs) \<le> unat (num c)"
    by (rule distinct_bounded_length [rotated])
  with cnt have pos: "0 < unat (inuse s)" and lx: "length xs \<le> unat (num c) - 1" by auto
  then have ine: "inuse s \<noteq> 0" by (auto simp: unat_eq_zero)
  then have dec: "unat (inuse s - 1) = unat (inuse s) - 1" by (rule unat_minus_one)
  have iend: "i \<noteq> BUFCTL_END"
    using idx lim by (auto simp: i_def BUFCTL_END_def SLAB_LIMIT_def)
  have nin: "unat i \<notin> unat ` set xs"
    using nf by (auto simp: i_def xs_def word_unat_eq_iff [symmetric])
  have "free_chain (unat (num c) - 1) ((bufctl s)[unat i := free s]) (free s) = Some xs"
    using free_chain_update [OF free_chain_fuel [OF ch lx] nin] .
  moreover obtain m where m: "unat (num c) = Suc m" using ilt by (cases "unat (num c)") auto
  ultimately have ch2: "free_chain (unat (num c)) (bufctl s') (free s') = Some (i # xs)"
    using iend ilt len by (simp add: s'_def)
  have "slab_ok c s'"
    using ch2 \<open>distinct (i # xs)\<close> cnt len dec pos by (simp add: slab_ok_def s'_def)
  moreover have "free_idxs c s' = i # xs" using ch2 by (simp add: free_idxs_def)
  moreover have "slab_put_obj c s objp = Return s'"
    using ilt len by (simp add: slab_put_obj_def s'_def i_def Let_def)
  moreover have "unat (inuse s') + 1 = unat (inuse s)" using dec pos by (simp add: s'_def)
  ultimately show ?thesis using ine by (auto simp: s'_def i_def xs_def)
qed

section \<open>What the predicates read\<close>

lemmas upd_defs = set_ac_def set_l3_def set_slab_def list_del_def

lemma index_frame [simp]:
  "index_to_obj (c\<lparr>array := a\<rparr>) = index_to_obj c"
  "index_to_obj (c\<lparr>nodelists := n\<rparr>) = index_to_obj c"
  "index_to_obj (c\<lparr>slabs := sl\<rparr>) = index_to_obj c"
  "index_to_obj (c\<lparr>page_slab := ps\<rparr>) = index_to_obj c"
  "index_to_obj (c\<lparr>objmem := om\<rparr>) = index_to_obj c"
  "index_to_obj (c\<lparr>ctor_calls := cc\<rparr>) = index_to_obj c"
  "index_to_obj (c\<lparr>rcu_pending := rp\<rparr>) = index_to_obj c"
  "index_to_obj (c\<lparr>lock_trace := lt\<rparr>) = index_to_obj c"
  "obj_to_index (c\<lparr>array := a\<rparr>) = obj_to_index c"
  "obj_to_index (c\<lparr>nodelists := n\<rparr>) = obj_to_index c"
  "obj_to_index (c\<lparr>slabs := sl\<rparr>) = obj_to_index c"
  "obj_to_index (c\<lparr>page_slab := ps\<rparr>) = obj_to_index c"
  "obj_to_index (c\<lparr>objmem := om\<rparr>) = obj_to_index c"
  "obj_to_index (c\<lparr>ctor_calls := cc\<rparr>) = obj_to_index c"
  "obj_to_index (c\<lparr>rcu_pending := rp\<rparr>) = obj_to_index c"
  "obj_to_index (c\<lparr>lock_trace := lt\<rparr>) = obj_to_index c"
  by (simp_all add: index_to_obj_def obj_to_index_def fun_eq_iff)

lemma virt_frame [simp]:
  "virt_to_slab (c\<lparr>array := a\<rparr>) = virt_to_slab c"
  "virt_to_slab (c\<lparr>nodelists := n\<rparr>) = virt_to_slab c"
  "virt_to_slab (c\<lparr>slabs := sl\<rparr>) = virt_to_slab c"
  "virt_to_slab (c\<lparr>objmem := om\<rparr>) = virt_to_slab c"
  "virt_to_slab (c\<lparr>ctor_calls := cc\<rparr>) = virt_to_slab c"
  "virt_to_slab (c\<lparr>rcu_pending := rp\<rparr>) = virt_to_slab c"
  "virt_to_slab (c\<lparr>lock_trace := lt\<rparr>) = virt_to_slab c"
  "slab_pages (c\<lparr>array := a\<rparr>) = slab_pages c"
  "slab_pages (c\<lparr>nodelists := n\<rparr>) = slab_pages c"
  "slab_pages (c\<lparr>slabs := sl\<rparr>) = slab_pages c"
  "slab_pages (c\<lparr>page_slab := ps\<rparr>) = slab_pages c"
  "slab_pages (c\<lparr>objmem := om\<rparr>) = slab_pages c"
  "slab_pages (c\<lparr>ctor_calls := cc\<rparr>) = slab_pages c"
  "slab_pages (c\<lparr>rcu_pending := rp\<rparr>) = slab_pages c"
  "slab_pages (c\<lparr>lock_trace := lt\<rparr>) = slab_pages c"
  by (simp_all add: virt_to_slab_def slab_pages_def fun_eq_iff)

lemma slab_ok_frame [simp]:
  "slab_ok (c\<lparr>array := a\<rparr>) = slab_ok c"
  "slab_ok (c\<lparr>nodelists := n\<rparr>) = slab_ok c"
  "slab_ok (c\<lparr>slabs := sl\<rparr>) = slab_ok c"
  "slab_ok (c\<lparr>page_slab := ps\<rparr>) = slab_ok c"
  "slab_ok (c\<lparr>objmem := om\<rparr>) = slab_ok c"
  "slab_ok (c\<lparr>ctor_calls := cc\<rparr>) = slab_ok c"
  "slab_ok (c\<lparr>rcu_pending := rp\<rparr>) = slab_ok c"
  "slab_ok (c\<lparr>lock_trace := lt\<rparr>) = slab_ok c"
  "free_idxs (c\<lparr>array := a\<rparr>) = free_idxs c"
  "free_idxs (c\<lparr>nodelists := n\<rparr>) = free_idxs c"
  "free_idxs (c\<lparr>slabs := sl\<rparr>) = free_idxs c"
  "free_idxs (c\<lparr>page_slab := ps\<rparr>) = free_idxs c"
  "free_idxs (c\<lparr>objmem := om\<rparr>) = free_idxs c"
  "free_idxs (c\<lparr>ctor_calls := cc\<rparr>) = free_idxs c"
  "free_idxs (c\<lparr>rcu_pending := rp\<rparr>) = free_idxs c"
  "free_idxs (c\<lparr>lock_trace := lt\<rparr>) = free_idxs c"
  "list_of_inuse (c\<lparr>array := a\<rparr>) = list_of_inuse c"
  "list_of_inuse (c\<lparr>nodelists := n\<rparr>) = list_of_inuse c"
  "list_of_inuse (c\<lparr>slabs := sl\<rparr>) = list_of_inuse c"
  "list_of_inuse (c\<lparr>page_slab := ps\<rparr>) = list_of_inuse c"
  "list_of_inuse (c\<lparr>objmem := om\<rparr>) = list_of_inuse c"
  "list_of_inuse (c\<lparr>ctor_calls := cc\<rparr>) = list_of_inuse c"
  "list_of_inuse (c\<lparr>rcu_pending := rp\<rparr>) = list_of_inuse c"
  "list_of_inuse (c\<lparr>lock_trace := lt\<rparr>) = list_of_inuse c"
  by (simp_all add: slab_ok_def free_idxs_def list_of_inuse_def fun_eq_iff cong: option.case_cong)

lemma geom_ok_frame [simp]:
  "geom_ok (c\<lparr>array := a\<rparr>) = geom_ok c"
  "geom_ok (c\<lparr>nodelists := n\<rparr>) = geom_ok c"
  "geom_ok (c\<lparr>slabs := sl\<rparr>) = geom_ok c"
  "geom_ok (c\<lparr>page_slab := ps\<rparr>) = geom_ok c"
  "geom_ok (c\<lparr>objmem := om\<rparr>) = geom_ok c"
  "geom_ok (c\<lparr>ctor_calls := cc\<rparr>) = geom_ok c"
  "geom_ok (c\<lparr>rcu_pending := rp\<rparr>) = geom_ok c"
  "geom_ok (c\<lparr>lock_trace := lt\<rparr>) = geom_ok c"
  by (simp_all add: geom_ok_def)

lemma slab_addr_ok_frame [simp]:
  "slab_addr_ok (c\<lparr>array := a\<rparr>) = slab_addr_ok c"
  "slab_addr_ok (c\<lparr>nodelists := n\<rparr>) = slab_addr_ok c"
  "slab_addr_ok (c\<lparr>slabs := sl\<rparr>) = slab_addr_ok c"
  "slab_addr_ok (c\<lparr>objmem := om\<rparr>) = slab_addr_ok c"
  "slab_addr_ok (c\<lparr>ctor_calls := cc\<rparr>) = slab_addr_ok c"
  "slab_addr_ok (c\<lparr>rcu_pending := rp\<rparr>) = slab_addr_ok c"
  "slab_addr_ok (c\<lparr>lock_trace := lt\<rparr>) = slab_addr_ok c"
  by (simp_all add: slab_addr_ok_def fun_eq_iff cong: option.case_cong)

lemma slab_linked_frame [simp]:
  "slab_linked (c\<lparr>array := a\<rparr>) = slab_linked c"
  "slab_linked (c\<lparr>slabs := sl\<rparr>) = slab_linked c"
  "slab_linked (c\<lparr>page_slab := ps\<rparr>) = slab_linked c"
  "slab_linked (c\<lparr>objmem := om\<rparr>) = slab_linked c"
  "slab_linked (c\<lparr>ctor_calls := cc\<rparr>) = slab_linked c"
  "slab_linked (c\<lparr>rcu_pending := rp\<rparr>) = slab_linked c"
  "slab_linked (c\<lparr>lock_trace := lt\<rparr>) = slab_linked c"
  by (simp_all add: slab_linked_def fun_eq_iff cong: option.case_cong)

lemma allocated_frame [simp]:
  "allocated (c\<lparr>array := a\<rparr>) = allocated c"
  "allocated (c\<lparr>nodelists := n\<rparr>) = allocated c"
  "allocated (c\<lparr>objmem := om\<rparr>) = allocated c"
  "allocated (c\<lparr>ctor_calls := cc\<rparr>) = allocated c"
  "allocated (c\<lparr>rcu_pending := rp\<rparr>) = allocated c"
  "allocated (c\<lparr>lock_trace := lt\<rparr>) = allocated c"
  "obj_node (c\<lparr>array := a\<rparr>) = obj_node c"
  "obj_node (c\<lparr>nodelists := n\<rparr>) = obj_node c"
  "obj_node (c\<lparr>objmem := om\<rparr>) = obj_node c"
  "obj_node (c\<lparr>ctor_calls := cc\<rparr>) = obj_node c"
  "obj_node (c\<lparr>rcu_pending := rp\<rparr>) = obj_node c"
  "obj_node (c\<lparr>lock_trace := lt\<rparr>) = obj_node c"
  by (simp_all add: allocated_def obj_node_def fun_eq_iff cong: option.case_cong)

lemma ac_at_frame [simp]:
  "ac_at (c\<lparr>slabs := sl\<rparr>) = ac_at c"
  "ac_at (c\<lparr>page_slab := ps\<rparr>) = ac_at c"
  "ac_at (c\<lparr>objmem := om\<rparr>) = ac_at c"
  "ac_at (c\<lparr>ctor_calls := cc\<rparr>) = ac_at c"
  "ac_at (c\<lparr>rcu_pending := rp\<rparr>) = ac_at c"
  "ac_at (c\<lparr>lock_trace := lt\<rparr>) = ac_at c"
  by (simp_all add: ac_at_def fun_eq_iff cong: option.case_cong ac_loc.case_cong)

lemma ac_ok_frame [simp]:
  "ac_ok topo (c\<lparr>array := a\<rparr>) = ac_ok topo c"
  "ac_ok topo (c\<lparr>nodelists := n\<rparr>) = ac_ok topo c"
  "ac_ok topo (c\<lparr>objmem := om\<rparr>) = ac_ok topo c"
  "ac_ok topo (c\<lparr>ctor_calls := cc\<rparr>) = ac_ok topo c"
  "ac_ok topo (c\<lparr>rcu_pending := rp\<rparr>) = ac_ok topo c"
  "ac_ok topo (c\<lparr>lock_trace := lt\<rparr>) = ac_ok topo c"
  by (simp_all add: ac_ok_def fun_eq_iff cong: option.case_cong)

lemma heap_inv_frame [simp]:
  "heap_inv (c\<lparr>array := a\<rparr>) = heap_inv c"
  "heap_inv (c\<lparr>objmem := om\<rparr>) = heap_inv c"
  "heap_inv (c\<lparr>ctor_calls := cc\<rparr>) = heap_inv c"
  "heap_inv (c\<lparr>rcu_pending := rp\<rparr>) = heap_inv c"
  "heap_inv (c\<lparr>lock_trace := lt\<rparr>) = heap_inv c"
  by (simp_all add: heap_inv_def)

lemma spin_fields [simp]:
  "array (spin_lock l c) = array c" "nodelists (spin_lock l c) = nodelists c"
  "slabs (spin_lock l c) = slabs c" "page_slab (spin_lock l c) = page_slab c"
  "objmem (spin_lock l c) = objmem c" "ctor_calls (spin_lock l c) = ctor_calls c"
  "rcu_pending (spin_lock l c) = rcu_pending c" "num (spin_lock l c) = num c"
  "buffer_size (spin_lock l c) = buffer_size c" "flags (spin_lock l c) = flags c"
  "ctor (spin_lock l c) = ctor c" "gfporder (spin_lock l c) = gfporder c"
  "colour (spin_lock l c) = colour c"
  "lock_trace (spin_lock l c) = lock_trace c @ [Acquire l]"
  "array (spin_unlock l c) = array c" "nodelists (spin_unlock l c) = nodelists c"
  "slabs (spin_unlock l c) = slabs c" "page_slab (spin_unlock l c) = page_slab c"
  "objmem (spin_unlock l c) = objmem c" "ctor_calls (spin_unlock l c) = ctor_calls c"
  "rcu_pending (spin_unlock l c) = rcu_pending c" "num (spin_unlock l c) = num c"
  "buffer_size (spin_unlock l c) = buffer_size c" "flags (spin_unlock l c) = flags c"
  "ctor (spin_unlock l c) = ctor c" "gfporder (spin_unlock l c) = gfporder c"
  "colour (spin_unlock l c) = colour c"
  "lock_trace (spin_unlock l c) = lock_trace c @ [Release l]"
  by (simp_all add: spin_lock_def spin_unlock_def)

lemma spin_frame [simp]:
  "index_to_obj (spin_lock l c) = index_to_obj c" "obj_to_index (spin_lock l c) = obj_to_index c"
  "virt_to_slab (spin_lock l c) = virt_to_slab c" "slab_pages (spin_lock l c) = slab_pages c"
  "slab_ok (spin_lock l c) = slab_ok c" "free_idxs (spin_lock l c) = free_idxs c"
  "list_of_inuse (spin_lock l c) = list_of_inuse c" "geom_ok (spin_lock l c) = geom_ok c"
  "slab_addr_ok (spin_lock l c) = slab_addr_ok c" "slab_linked (spin_lock l c) = slab_linked c"
  "allocated (spin_lock l c) = allocated c" "obj_node (spin_lock l c) = obj_node c"
  "ac_at (spin_lock l c) = ac_at c" "ac_ok topo (spin_lock l c) = ac_ok topo c"
  "heap_inv (spin_lock l c) = heap_inv c"
  "index_to_obj (spin_unlock l c) = index_to_obj c"
  "obj_to_index (spin_unlock l c) = obj_to_index c"
  "virt_to_slab (spin_unlock l c) = virt_to_slab c" "slab_pages (spin_unlock l c) = slab_pages c"
  "slab_ok (spin_unlock l c) = slab_ok c" "free_idxs (spin_unlock l c) = free_idxs c"
  "list_of_inuse (spin_unlock l c) = list_of_inuse c" "geom_ok (spin_unlock l c) = geom_ok c"
  "slab_addr_ok (spin_unlock l c) = slab_addr_ok c"
  "slab_linked (spin_unlock l c) = slab_linked c"
  "allocated (spin_unlock l c) = allocated c" "obj_node (spin_unlock l c) = obj_node c"
  "ac_at (spin_unlock l c) = ac_at c" "ac_ok topo (spin_unlock l c) = ac_ok topo c"
  "heap_inv (spin_unlock l c) = heap_inv c"
  by (simp_all add: spin_lock_def spin_unlock_def)

section \<open>The lists of a node under the list operations\<close>

lemma l3_list_del [simp]:
  "set (l3_list (l3_del sp l3) k) = set (l3_list l3 k) - {sp}"
  "distinct (l3_list l3 k) \<Longrightarrow> distinct (l3_list (l3_del sp l3) k)"
  by (cases k; simp add: l3_list_def l3_del_def distinct_removeAll)+

lemma l3_list_upd [simp]:
  "l3_list (l3\<lparr>slabs_partial := xs\<rparr>) k = (if k = OnPartial then xs else l3_list l3 k)"
  "l3_list (l3\<lparr>slabs_full := xs\<rparr>) k = (if k = OnFull then xs else l3_list l3 k)"
  "l3_list (l3\<lparr>slabs_free := xs\<rparr>) k = (if k = OnFree then xs else l3_list l3 k)"
  "l3_list (l3\<lparr>free_objects := fo\<rparr>) k = l3_list l3 k"
  "l3_list (l3\<lparr>free_touched := ft\<rparr>) k = l3_list l3 k"
  "l3_list (l3\<lparr>colour_next := cn\<rparr>) k = l3_list l3 k"
  "l3_list (l3\<lparr>shared := sh\<rparr>) k = l3_list l3 k"
  "l3_list (l3\<lparr>alien := al\<rparr>) k = l3_list l3 k"
  by (cases k; simp add: l3_list_def)+

lemma l3_del_fields [simp]:
  "shared (l3_del sp l3) = shared l3" "alien (l3_del sp l3) = alien l3"
  "colour_next (l3_del sp l3) = colour_next l3" "free_objects (l3_del sp l3) = free_objects l3"
  "free_limit (l3_del sp l3) = free_limit l3" "free_touched (l3_del sp l3) = free_touched l3"
  by (simp_all add: l3_del_def)

lemma heap_invD:
  assumes "heap_inv c" and "slabs c sp = Some s"
  shows "slab_ok c s" and "slab_addr_ok c sp s" and "slab_linked c sp s"
  using assms by (auto simp: heap_inv_def)

lemma heap_inv_lists:
  assumes "heap_inv c" and "nodelists c node = Some l3"
  shows "set (l3_list l3 k) \<subseteq> dom (slabs c)" and "distinct (l3_list l3 k)"
    and "colour_next l3 < colour c \<or> colour_next l3 = 0"
  using assms by (auto simp: heap_inv_def)

lemma heap_inv_geom: "heap_inv c \<Longrightarrow> geom_ok c"
  by (simp add: heap_inv_def)

lemma slab_linked_on:
  assumes "slab_linked c sp s" and "nodelists c node = Some l3"
  shows "sp \<in> set (l3_list l3 k) \<longleftrightarrow> node = nodeid s \<and> k = list_of_inuse c s"
  using assms by (auto simp: slab_linked_def)

lemma heap_inv_property: "heap_inv c \<Longrightarrow> slab_lists_property c"
  by (auto simp: heap_inv_def slab_lists_property_def dest: slab_ok_inuse_le)

section \<open>The constructor\<close>

lemma call_ctor_fields [simp]:
  "num (call_ctor c objp) = num c" "buffer_size (call_ctor c objp) = buffer_size c"
  "ctor (call_ctor c objp) = ctor c" "slabs (call_ctor c objp) = slabs c"
  "page_slab (call_ctor c objp) = page_slab c" "nodelists (call_ctor c objp) = nodelists c"
  "array (call_ctor c objp) = array c" "flags (call_ctor c objp) = flags c"
  "rcu_pending (call_ctor c objp) = rcu_pending c" "gfporder (call_ctor c objp) = gfporder c"
  "colour (call_ctor c objp) = colour c" "colour_off (call_ctor c objp) = colour_off c"
  "slab_size (call_ctor c objp) = slab_size c"
  by (simp_all add: call_ctor_def split: option.splits)

lemma index_to_obj_call_ctor [simp]:
  "index_to_obj (call_ctor c objp) s = index_to_obj c s"
  by (simp add: index_to_obj_def fun_eq_iff)

lemma index_to_obj_slab_upd [simp]:
  "index_to_obj c (s\<lparr>bufctl := b\<rparr>) = index_to_obj c s"
  "index_to_obj c (s\<lparr>free := fr\<rparr>) = index_to_obj c s"
  "index_to_obj c (s\<lparr>inuse := n\<rparr>) = index_to_obj c s"
  "obj_to_index c (s\<lparr>bufctl := b\<rparr>) = obj_to_index c s"
  "obj_to_index c (s\<lparr>free := fr\<rparr>) = obj_to_index c s"
  "obj_to_index c (s\<lparr>inuse := n\<rparr>) = obj_to_index c s"
  by (simp_all add: index_to_obj_def obj_to_index_def fun_eq_iff)

lemma fold_call_ctor_fields [simp]:
  "num (fold (\<lambda>p c. call_ctor c p) objs c) = num c" "buffer_size (fold (\<lambda>p c. call_ctor c p) objs c) = buffer_size c"
  "ctor (fold (\<lambda>p c. call_ctor c p) objs c) = ctor c" "slabs (fold (\<lambda>p c. call_ctor c p) objs c) = slabs c"
  "page_slab (fold (\<lambda>p c. call_ctor c p) objs c) = page_slab c"
  "nodelists (fold (\<lambda>p c. call_ctor c p) objs c) = nodelists c"
  "array (fold (\<lambda>p c. call_ctor c p) objs c) = array c" "flags (fold (\<lambda>p c. call_ctor c p) objs c) = flags c"
  "rcu_pending (fold (\<lambda>p c. call_ctor c p) objs c) = rcu_pending c"
  "gfporder (fold (\<lambda>p c. call_ctor c p) objs c) = gfporder c"
  "colour (fold (\<lambda>p c. call_ctor c p) objs c) = colour c" "colour_off (fold (\<lambda>p c. call_ctor c p) objs c) = colour_off c"
  "slab_size (fold (\<lambda>p c. call_ctor c p) objs c) = slab_size c"
  by (induction objs arbitrary: c; simp)+









lemma alloc_slabmgmt_frame [simp]:
  "alloc_slabmgmt (c\<lparr>nodelists := n\<rparr>) objp off nid mgmt = alloc_slabmgmt c objp off nid mgmt"
  by (simp add: alloc_slabmgmt_def)





lemma heap_stepI:
  "c' = c\<lparr>nodelists := N, slabs := S, page_slab := P, rcu_pending := R,
         lock_trace := L\<rparr> \<Longrightarrow> heap_step c c'"
  unfolding heap_step_def by blast

lemma heap_stepE:
  assumes "heap_step c c'"
  obtains N S P R L where "c' = c\<lparr>nodelists := N, slabs := S, page_slab := P, rcu_pending := R,
         lock_trace := L\<rparr>"
  using assms unfolding heap_step_def by blast

lemma quiet_stepI:
  "c' = c\<lparr>array := A, nodelists := N, slabs := S, page_slab := P, rcu_pending := R,
         lock_trace := L\<rparr>
   \<Longrightarrow> quiet_step c c'"
  unfolding quiet_step_def by blast


lemma heap_step_refl [simp]: "heap_step c c"
  by (rule heap_stepI [where N = "nodelists c" and S = "slabs c" and P = "page_slab c"
        and R = "rcu_pending c" and L = "lock_trace c"]) simp

lemma quiet_step_refl [simp]: "quiet_step c c"
  by (rule quiet_stepI [where A = "array c" and N = "nodelists c" and S = "slabs c"
        and P = "page_slab c" and R = "rcu_pending c" and L = "lock_trace c"]) simp

lemma heap_step_trans: "heap_step c c1 \<Longrightarrow> heap_step c1 c2 \<Longrightarrow> heap_step c c2"
  by (elim heap_stepE) (simp add: heap_stepI)



lemma heap_step_upd [simp]:
  "heap_step c (c\<lparr>nodelists := N\<rparr>)" "heap_step c (c\<lparr>slabs := S\<rparr>)"
  "heap_step c (c\<lparr>page_slab := P\<rparr>)" "heap_step c (c\<lparr>rcu_pending := R\<rparr>)"
  "heap_step c (c\<lparr>lock_trace := L\<rparr>)"
proof -
  show "heap_step c (c\<lparr>nodelists := N\<rparr>)"
    by (rule heap_stepI [where N = N and S = "slabs c" and P = "page_slab c"
          and R = "rcu_pending c" and L = "lock_trace c"]) simp
  show "heap_step c (c\<lparr>slabs := S\<rparr>)"
    by (rule heap_stepI [where N = "nodelists c" and S = S and P = "page_slab c"
          and R = "rcu_pending c" and L = "lock_trace c"]) simp
  show "heap_step c (c\<lparr>page_slab := P\<rparr>)"
    by (rule heap_stepI [where N = "nodelists c" and S = "slabs c" and P = P
          and R = "rcu_pending c" and L = "lock_trace c"]) simp
  show "heap_step c (c\<lparr>rcu_pending := R\<rparr>)"
    by (rule heap_stepI [where N = "nodelists c" and S = "slabs c" and P = "page_slab c"
          and R = R and L = "lock_trace c"]) simp
  show "heap_step c (c\<lparr>lock_trace := L\<rparr>)"
    by (rule heap_stepI [where N = "nodelists c" and S = "slabs c" and P = "page_slab c"
          and R = "rcu_pending c" and L = L]) simp
qed

lemma heap_step_ops [simp]:
  "heap_step c (set_l3 c node l3)" "heap_step c (set_slab c sp s)" "heap_step c (list_del sp c)"
  "heap_step c (spin_lock l c)" "heap_step c (spin_unlock l c)"
  by (simp_all add: set_l3_def set_slab_def list_del_def spin_lock_def spin_unlock_def)


lemma heap_step_fields:
  assumes "heap_step c c'"
  shows "array c' = array c" "objmem c' = objmem c" "ctor_calls c' = ctor_calls c"
    "num c' = num c" "buffer_size c' = buffer_size c" "flags c' = flags c" "ctor c' = ctor c"
  using assms by (auto elim!: heap_stepE)


section \<open>What the operations leave alone\<close>



lemma kmem_freepages_eq:
  "kmem_freepages c addr =
     (if \<forall>pg \<in> set (slab_pages c addr). page_slab c pg \<noteq> None
      then Return (c\<lparr>page_slab := (\<lambda>pg. if pg \<in> set (slab_pages c addr) then None
                                        else page_slab c pg)\<rparr>)
      else BUG)"
proof -
  have "fold (\<lambda>pg m. m(pg := None)) pgs m = (\<lambda>pg. if pg \<in> set pgs then None else m pg)"
    for pgs and m :: "u32 \<rightharpoonup> u32"
    by (induction pgs arbitrary: m) (auto simp: fun_eq_iff)
  then show ?thesis
    by (simp add: kmem_freepages_def list_all_iff)
qed

lemma slab_destroy_cases:
  assumes "slab_destroy c sp = Return c'"
  obtains (rcu) s where "slabs c sp = Some s" and "SLAB_DESTROY_BY_RCU \<in> flags c"
      and "c' = c\<lparr>slabs := (slabs c)(sp := None),
                    rcu_pending := rcu_pending c @ [s_mem s - colouroff s]\<rparr>"
    | (pages) s where "slabs c sp = Some s" and "SLAB_DESTROY_BY_RCU \<notin> flags c"
      and "\<forall>pg \<in> set (slab_pages c (s_mem s - colouroff s)). page_slab c pg \<noteq> None"
      and "c' = c\<lparr>page_slab := (\<lambda>pg. if pg \<in> set (slab_pages c (s_mem s - colouroff s))
                                       then None else page_slab c pg),
                    slabs := (slabs c)(sp := None)\<rparr>"
proof -
  from assms obtain s where s: "slabs c sp = Some s"
    by (auto simp: slab_destroy_def obind_Return_iff get_slab_def split: option.splits)
  show thesis
  proof (cases "SLAB_DESTROY_BY_RCU \<in> flags c")
    case True
    with assms s have "c' = c\<lparr>slabs := (slabs c)(sp := None),
        rcu_pending := rcu_pending c @ [s_mem s - colouroff s]\<rparr>"
      by (simp add: slab_destroy_def obind_def get_slab_def Let_def)
    with s True show thesis
      by (rule rcu)
  next
    case False
    show thesis
    proof (cases "\<forall>pg \<in> set (slab_pages c (s_mem s - colouroff s)). page_slab c pg \<noteq> None")
      case all: True
      then have "kmem_freepages c (s_mem s - colouroff s)
          = Return (c\<lparr>page_slab := (\<lambda>pg. if pg \<in> set (slab_pages c (s_mem s - colouroff s))
                                       then None else page_slab c pg)\<rparr>)"
        by (subst kmem_freepages_eq) (simp del: not_None_eq)
      with assms s False
      have "c' = c\<lparr>page_slab := (\<lambda>pg. if pg \<in> set (slab_pages c (s_mem s - colouroff s))
                                       then None else page_slab c pg),
                    slabs := (slabs c)(sp := None)\<rparr>"
        by (simp add: slab_destroy_def obind_def get_slab_def Let_def)
      with s False all show thesis
        by (rule pages)
    next
      case none: False
      then have "kmem_freepages c (s_mem s - colouroff s) = BUG"
        by (subst kmem_freepages_eq) (simp del: not_None_eq)
      with assms s False show thesis
        by (simp add: slab_destroy_def obind_def get_slab_def Let_def)
    qed
  qed
qed

lemma slab_destroy_nodelists: "slab_destroy c sp = Return c' \<Longrightarrow> nodelists c' = nodelists c"
  by (erule slab_destroy_cases) simp_all

lemma slab_put_get_frame [simp]:
  "slab_put_obj (c\<lparr>array := a\<rparr>) = slab_put_obj c"
  "slab_put_obj (c\<lparr>nodelists := n\<rparr>) = slab_put_obj c"
  "slab_put_obj (c\<lparr>slabs := sl\<rparr>) = slab_put_obj c"
  "slab_put_obj (c\<lparr>page_slab := ps\<rparr>) = slab_put_obj c"
  "slab_get_obj (c\<lparr>array := a\<rparr>) = slab_get_obj c"
  "slab_get_obj (c\<lparr>nodelists := n\<rparr>) = slab_get_obj c"
  "slab_get_obj (c\<lparr>slabs := sl\<rparr>) = slab_get_obj c"
  "slab_get_obj (c\<lparr>page_slab := ps\<rparr>) = slab_get_obj c"
  by (simp_all add: slab_put_obj_def slab_get_obj_def fun_eq_iff)


lemma heap_step_relink [simp]:
  "heap_step c (set_l3 (set_slab (list_del sp c) sp s') node l3)"
  by (rule heap_step_trans [OF heap_step_ops(3) heap_step_trans [OF heap_step_ops(2) heap_step_ops(1)]])



















lemma set_same [simp]:
  "nodelists c node = Some l3 \<Longrightarrow> set_l3 c node l3 = c"
  "array c cpu = Some ac \<Longrightarrow> set_ac c cpu ac = c"
  "slabs c sp = Some s \<Longrightarrow> set_slab c sp s = c"
  by (simp_all add: upd_defs fun_upd_idem)




section \<open>Unlinking and linking a slab\<close>

lemma heap_inv_butD:
  assumes "heap_inv_but c sp" and "slabs c sp' = Some s"
  shows "slab_ok c s" and "slab_addr_ok c sp' s" and "nodelists c (nodeid s) \<noteq> None"
    and "sp' \<noteq> sp \<Longrightarrow> slab_linked c sp' s"
  using assms by (auto simp: heap_inv_but_def)

lemma heap_inv_but_lists:
  assumes "heap_inv_but c sp" and "nodelists c node = Some l3"
  shows "set (l3_list l3 k) \<subseteq> dom (slabs c) - {sp}" and "distinct (l3_list l3 k)"
    and "colour_next l3 < colour c \<or> colour_next l3 = 0"
  using assms by (auto simp: heap_inv_but_def)

lemma heap_inv_linked_node:
  "heap_inv c \<Longrightarrow> slabs c sp = Some s \<Longrightarrow> nodelists c (nodeid s) \<noteq> None"
  by (auto dest!: heap_invD(3) simp: slab_linked_def)

lemma heap_inv_unlink:
  assumes "heap_inv c"
  shows "heap_inv_but (list_del sp c) sp"
  unfolding heap_inv_but_def
proof (intro conjI allI impI)
  show "geom_ok (list_del sp c)"
    using heap_inv_geom [OF assms] by (simp add: list_del_def)
next
  fix sp' s assume s: "slabs (list_del sp c) sp' = Some s"
  then have s: "slabs c sp' = Some s"
    by (simp add: list_del_def)
  note d = heap_invD [OF assms s]
  show "slab_ok (list_del sp c) s"
    using d(1) by (simp add: list_del_def)
  show "slab_addr_ok (list_del sp c) sp' s"
    using d(2) by (simp add: list_del_def)
  show "nodelists (list_del sp c) (nodeid s) \<noteq> None"
    using heap_inv_linked_node [OF assms s] by (simp add: list_del_def)
  show "slab_linked (list_del sp c) sp' s" if "sp' \<noteq> sp"
    using d(3) that by (auto simp: slab_linked_def list_del_def)
next
  fix node l3 k assume "nodelists (list_del sp c) node = Some l3"
  then obtain l0 where l0: "nodelists c node = Some l0" and l3: "l3 = l3_del sp l0"
    by (auto simp: list_del_def)
  note l = heap_inv_lists [OF assms l0]
  show "set (l3_list l3 k) \<subseteq> dom (slabs (list_del sp c)) - {sp}"
    using l(1) [of k] by (auto simp: l3 list_del_def)
  show "distinct (l3_list l3 k)"
    using l(2) [of k] by (simp add: l3)
  show "colour_next l3 < colour (list_del sp c) \<or> colour_next l3 = 0"
    using l(3) by (simp add: l3 list_del_def)
qed

lemma heap_inv_but_set_slab:
  assumes "heap_inv_but c sp" and "slab_ok c s'" and "slab_addr_ok c sp s'"
    and "nodelists c (nodeid s') \<noteq> None"
  shows "heap_inv_but (set_slab c sp s') sp"
  using assms unfolding heap_inv_but_def set_slab_def
  by (auto simp: subset_iff)

lemma slab_linked_same_lists:
  assumes "slab_linked c sp s" and "nodelists c node = Some l3"
    and "\<forall>k. l3_list l3' k = l3_list l3 k"
  shows "slab_linked (set_l3 c node l3') sp s"
  using assms unfolding slab_linked_def set_l3_def
  by (auto split: if_splits)

lemma heap_inv_but_set_l3:
  assumes "heap_inv_but c sp" and "nodelists c node = Some l3"
    and "\<forall>k. l3_list l3' k = l3_list l3 k"
    and "colour_next l3' < colour c \<or> colour_next l3' = 0"
  shows "heap_inv_but (set_l3 c node l3') sp"
  unfolding heap_inv_but_def
proof (intro conjI allI impI)
  show "geom_ok (set_l3 c node l3')"
    using assms(1) by (simp add: heap_inv_but_def set_l3_def)
next
  fix sp' s assume "slabs (set_l3 c node l3') sp' = Some s"
  then have s: "slabs c sp' = Some s"
    by (simp add: set_l3_def)
  note d = heap_inv_butD [OF assms(1) s]
  show "slab_ok (set_l3 c node l3') s"
    using d(1) by (simp add: set_l3_def)
  show "slab_addr_ok (set_l3 c node l3') sp' s"
    using d(2) by (simp add: set_l3_def)
  show "nodelists (set_l3 c node l3') (nodeid s) \<noteq> None"
    using d(3) by (simp add: set_l3_def)
  show "slab_linked (set_l3 c node l3') sp' s" if "sp' \<noteq> sp"
    using d(4) [OF that] assms(2,3) by (rule slab_linked_same_lists)
next
  fix n l k assume n: "nodelists (set_l3 c node l3') n = Some l"
  show "set (l3_list l k) \<subseteq> dom (slabs (set_l3 c node l3')) - {sp}"
    using n heap_inv_but_lists(1) [OF assms(1), of n _ k] heap_inv_but_lists(1) [OF assms(1,2), of k]
      assms(3)
    by (auto simp: set_l3_def split: if_splits)
  show "distinct (l3_list l k)"
    using n heap_inv_but_lists(2) [OF assms(1), of n _ k] heap_inv_but_lists(2) [OF assms(1,2), of k]
      assms(3)
    by (auto simp: set_l3_def split: if_splits)
  show "colour_next l < colour (set_l3 c node l3') \<or> colour_next l = 0"
    using n heap_inv_but_lists(3) [OF assms(1), of n] assms(4)
    by (auto simp: set_l3_def split: if_splits)
qed

lemma heap_inv_set_l3:
  assumes "heap_inv c" and "nodelists c node = Some l3"
    and "\<forall>k. l3_list l3' k = l3_list l3 k"
    and "colour_next l3' < colour c \<or> colour_next l3' = 0"
  shows "heap_inv (set_l3 c node l3')"
  unfolding heap_inv_def
proof (intro conjI allI impI)
  show "geom_ok (set_l3 c node l3')"
    using assms(1) by (simp add: heap_inv_def set_l3_def)
next
  fix sp' s assume "slabs (set_l3 c node l3') sp' = Some s"
  then have s: "slabs c sp' = Some s"
    by (simp add: set_l3_def)
  note d = heap_invD [OF assms(1) s]
  show "slab_ok (set_l3 c node l3') s"
    using d(1) by (simp add: set_l3_def)
  show "slab_addr_ok (set_l3 c node l3') sp' s"
    using d(2) by (simp add: set_l3_def)
  show "slab_linked (set_l3 c node l3') sp' s"
    using d(3) assms(2,3) by (rule slab_linked_same_lists)
next
  fix n l k assume n: "nodelists (set_l3 c node l3') n = Some l"
  show "set (l3_list l k) \<subseteq> dom (slabs (set_l3 c node l3'))"
    using n heap_inv_lists(1) [OF assms(1), of n _ k] heap_inv_lists(1) [OF assms(1,2), of k]
      assms(3)
    by (auto simp: set_l3_def split: if_splits)
  show "distinct (l3_list l k)"
    using n heap_inv_lists(2) [OF assms(1), of n _ k] heap_inv_lists(2) [OF assms(1,2), of k]
      assms(3)
    by (auto simp: set_l3_def split: if_splits)
  show "colour_next l < colour (set_l3 c node l3') \<or> colour_next l = 0"
    using n heap_inv_lists(3) [OF assms(1), of n] assms(4)
    by (auto simp: set_l3_def split: if_splits)
qed

lemma heap_inv_relink:
  assumes but: "heap_inv_but c sp" and s: "slabs c sp = Some s"
    and l3: "nodelists c (nodeid s) = Some l3"
    and sets: "\<forall>k. set (l3_list l3' k)
        = set (l3_list l3 k) \<union> (if k = list_of_inuse c s then {sp} else {})"
    and dist: "\<forall>k. distinct (l3_list l3' k)"
    and col: "colour_next l3' < colour c \<or> colour_next l3' = 0"
  shows "heap_inv (set_l3 c (nodeid s) l3')"
  unfolding heap_inv_def
proof (intro conjI allI impI)
  let ?c = "set_l3 c (nodeid s) l3'"
  show "geom_ok ?c"
    using but by (simp add: heap_inv_but_def set_l3_def)
  have notin: "sp \<notin> set (l3_list l k)" if "nodelists c n = Some l" for n l k
    using heap_inv_but_lists(1) [OF but that, of k] by auto
  {
    fix sp' t assume "slabs ?c sp' = Some t"
    then have t: "slabs c sp' = Some t"
      by (simp add: set_l3_def)
    note d = heap_inv_butD [OF but t]
    show "slab_ok ?c t"
      using d(1) by (simp add: set_l3_def)
    show "slab_addr_ok ?c sp' t"
      using d(2) by (simp add: set_l3_def)
    show "slab_linked ?c sp' t"
    proof (cases "sp' = sp")
      case True
      with s t have [simp]: "t = s" by simp
      show ?thesis
        unfolding slab_linked_def True
        using l3 sets dist notin heap_inv_but_lists(2) [OF but]
        by (auto simp: set_l3_def split: if_splits)
    next
      case False
      from d(4) [OF False] show ?thesis
        unfolding slab_linked_def
        using l3 sets dist False
        by (auto simp: set_l3_def split: if_splits)
    qed
  }
  fix n l k assume n: "nodelists ?c n = Some l"
  show "set (l3_list l k) \<subseteq> dom (slabs ?c)"
    using n heap_inv_but_lists(1) [OF but, of n _ k] heap_inv_but_lists(1) [OF but l3, of k]
      sets s
    by (auto simp: set_l3_def split: if_splits)
  show "distinct (l3_list l k)"
    using n heap_inv_but_lists(2) [OF but, of n _ k] dist
    by (auto simp: set_l3_def split: if_splits)
  show "colour_next l < colour ?c \<or> colour_next l = 0"
    using n heap_inv_but_lists(3) [OF but, of n] col
    by (auto simp: set_l3_def split: if_splits)
qed

section \<open>The allocated objects\<close>

lemma word_below_card: "card {i :: u32. i < n} = unat n"
proof -
  have eq: "{i :: u32. i < n} = of_nat ` {0..<unat n}"
  proof (intro set_eqI iffI)
    fix i :: u32 assume "i \<in> {i. i < n}"
    then have "unat i < unat n"
      by (simp add: word_less_nat_alt)
    then have "unat i \<in> {0..<unat n}"
      by simp
    then have "of_nat (unat i) \<in> (of_nat :: nat \<Rightarrow> u32) ` {0..<unat n}"
      by (rule imageI)
    then show "i \<in> of_nat ` {0..<unat n}"
      by simp
  next
    fix i :: u32 assume "i \<in> of_nat ` {0..<unat n}"
    then obtain k where k: "k < unat n" and i: "i = of_nat k"
      by auto
    have "k < 2 ^ LENGTH(32)"
      using k unsigned_less [of n, where ?'a = nat] by simp
    then have "unat (of_nat k :: u32) = k"
      by (simp add: unat_of_nat)
    with k i show "i \<in> {i. i < n}"
      by (simp add: word_less_nat_alt)
  qed
  have inj: "inj_on (of_nat :: nat \<Rightarrow> u32) {0..<unat n}"
  proof (rule inj_onI)
    fix x y assume x: "x \<in> {0..<unat n}" and y: "y \<in> {0..<unat n}"
      and e: "(of_nat x :: u32) = of_nat y"
    have "x < 2 ^ LENGTH(32)" "y < 2 ^ LENGTH(32)"
      using x y unsigned_less [of n, where ?'a = nat] by simp_all
    then have "unat (of_nat x :: u32) = x" "unat (of_nat y :: u32) = y"
      by (simp_all add: unat_of_nat)
    with e show "x = y"
      by metis
  qed
  show ?thesis
    unfolding eq using card_image [OF inj] by simp
qed

lemma slab_ok_free_below:
  assumes "slab_ok c s" and "i \<in> set (free_idxs c s)"
  shows "i < num c"
  using free_chain_members [OF slab_ok_free_idxs [OF assms(1)] assms(2)] slab_ok_count [OF assms(1)]
  by (simp add: word_less_nat_alt)

lemma slab_ok_all_free:
  assumes ok: "slab_ok c s" and z: "inuse s = 0" and i: "i < num c"
  shows "i \<in> set (free_idxs c s)"
proof -
  from slab_ok_count [OF ok] z have len: "length (free_idxs c s) = unat (num c)"
    and d: "distinct (free_idxs c s)"
    by simp_all
  have sub: "set (free_idxs c s) \<subseteq> {i. i < num c}"
    using slab_ok_free_below [OF ok] by auto
  have "card (set (free_idxs c s)) = card {i. i < num c}"
    using d len by (simp add: distinct_card word_below_card)
  with sub have "set (free_idxs c s) = {i. i < num c}"
    by (intro card_subset_eq) simp_all
  with i show ?thesis
    by simp
qed

lemma allocatedE:
  assumes "allocated c objp"
  obtains sp s where "virt_to_slab c objp = Some sp" and "slabs c sp = Some s"
    and "obj_to_index c s objp < num c"
    and "index_to_obj c s (obj_to_index c s objp) = objp"
    and "obj_to_index c s objp \<notin> set (free_idxs c s)"
    and "obj_node c objp = Some (nodeid s)"
  using assms by (auto simp: allocated_def obj_node_def split: option.splits)

lemma allocatedI:
  assumes "slabs c sp = Some s" and "slab_addr_ok c sp s" and "i < num c"
    and "i \<notin> set (free_idxs c s)"
  shows "allocated c (index_to_obj c s i)" and "obj_node c (index_to_obj c s i) = Some (nodeid s)"
  using assms by (auto simp: allocated_def obj_node_def slab_addr_ok_def)

lemma free_idxs_cong: "num c' = num c \<Longrightarrow> free_idxs c' = free_idxs c"
  by (simp add: free_idxs_def fun_eq_iff)

lemma index_cong:
  assumes "buffer_size c' = buffer_size c" and "s_mem s' = s_mem s"
  shows "index_to_obj c' s' = index_to_obj c s" and "obj_to_index c' s' = obj_to_index c s"
  using assms by (simp_all add: index_to_obj_def obj_to_index_def fun_eq_iff)

text \<open>A slab is written to, at the same address.\<close>

lemma allocated_slab_upd:
  assumes "page_slab c' = page_slab c" and "slabs c' = (slabs c)(sp \<mapsto> s')"
    and "buffer_size c' = buffer_size c" and "num c' = num c"
    and "slabs c sp = Some s" and "s_mem s' = s_mem s" and "nodeid s' = nodeid s"
  shows "allocated c' objp \<longleftrightarrow>
      (if virt_to_slab c objp = Some sp
       then obj_to_index c s objp < num c
            \<and> index_to_obj c s (obj_to_index c s objp) = objp
            \<and> obj_to_index c s objp \<notin> set (free_idxs c s')
       else allocated c objp)"
    and "obj_node c' objp = obj_node c objp"
proof -
  have i: "index_to_obj c' = index_to_obj c" "obj_to_index c' = obj_to_index c"
    using assms(3) by (simp_all add: index_to_obj_def obj_to_index_def fun_eq_iff)
  have j: "index_to_obj c s' = index_to_obj c s" "obj_to_index c s' = obj_to_index c s"
    using assms(6) by (simp_all add: index_to_obj_def obj_to_index_def fun_eq_iff)
  note f = free_idxs_cong [OF assms(4)]
  show "allocated c' objp \<longleftrightarrow>
      (if virt_to_slab c objp = Some sp
       then obj_to_index c s objp < num c
            \<and> index_to_obj c s (obj_to_index c s objp) = objp
            \<and> obj_to_index c s objp \<notin> set (free_idxs c s')
       else allocated c objp)"
    using assms(1,2,4,5) i j f
    by (auto simp: allocated_def virt_to_slab_def split: option.splits)
  show "obj_node c' objp = obj_node c objp"
    using assms(1,2,5,7)
    by (auto simp: obj_node_def virt_to_slab_def split: option.splits)
qed

text \<open>A slab is given up, with its pages or without.\<close>

lemma allocated_slab_gone:
  assumes "slabs c' = (slabs c)(sp := None)"
    and "\<forall>pg. page_slab c' pg = page_slab c pg
           \<or> (page_slab c pg = Some sp \<and> page_slab c' pg = None)"
    and "buffer_size c' = buffer_size c" and "num c' = num c"
  shows "allocated c' objp \<longleftrightarrow> allocated c objp \<and> virt_to_slab c objp \<noteq> Some sp"
    and "allocated c' objp \<Longrightarrow> obj_node c' objp = obj_node c objp"
proof -
  have i: "index_to_obj c' = index_to_obj c" "obj_to_index c' = obj_to_index c"
    using assms(3) by (simp_all add: index_to_obj_def obj_to_index_def fun_eq_iff)
  note f = free_idxs_cong [OF assms(4)]
  from assms(2) have pg: "page_slab c' (drop_bit 12 objp) = page_slab c (drop_bit 12 objp)
      \<or> (page_slab c (drop_bit 12 objp) = Some sp \<and> page_slab c' (drop_bit 12 objp) = None)"
    by blast
  from pg show "allocated c' objp \<longleftrightarrow> allocated c objp \<and> virt_to_slab c objp \<noteq> Some sp"
    using assms(1,4) i f
    by (auto simp: allocated_def virt_to_slab_def split: option.splits if_splits)
  from pg show "allocated c' objp \<Longrightarrow> obj_node c' objp = obj_node c objp"
    using assms(1)
    by (auto simp: allocated_def obj_node_def virt_to_slab_def split: option.splits if_splits)
qed

section \<open>Freeing an object\<close>

lemma slab_addr_ok_same_address:
  assumes "s_mem s' = s_mem s" and "colouroff s' = colouroff s"
  shows "slab_addr_ok c sp s' = slab_addr_ok c sp s"
  using assms by (simp add: slab_addr_ok_def index_to_obj_def obj_to_index_def)

lemma ac_at_cong:
  assumes "array c' = array c"
    and "\<And>n. map_option shared (nodelists c' n) = map_option shared (nodelists c n)"
    and "\<And>n. map_option alien (nodelists c' n) = map_option alien (nodelists c n)"
  shows "ac_at c' = ac_at c"
proof
  fix loc
  show "ac_at c' loc = ac_at c loc"
  proof (cases loc)
    case (CpuArray cpu)
    with assms(1) show ?thesis
      by (simp add: ac_at_def)
  next
    case (SharedArray n)
    with assms(2) [of n] show ?thesis
      by (auto simp: ac_at_def split: option.splits)
  next
    case (AlienArray n nid)
    with assms(3) [of n] show ?thesis
      by (auto simp: ac_at_def get_alien_def split: option.splits)
  qed
qed

lemma heap_inv_destroy:
  assumes but: "heap_inv_but c sp" and s: "slabs c sp = Some s"
  shows "\<exists>c'. slab_destroy c sp = Return c' \<and> heap_inv c' \<and> nodelists c' = nodelists c
      \<and> array c' = array c
      \<and> (\<forall>objp. allocated c' objp \<longleftrightarrow> allocated c objp \<and> virt_to_slab c objp \<noteq> Some sp)
      \<and> (\<forall>objp. allocated c' objp \<longrightarrow> obj_node c' objp = obj_node c objp)"
proof -
  define addr where "addr = s_mem s - colouroff s"
  define P where "P = (if SLAB_DESTROY_BY_RCU \<in> flags c then page_slab c
    else (\<lambda>pg. if pg \<in> set (slab_pages c addr) then None else page_slab c pg))"
  define R where "R = (if SLAB_DESTROY_BY_RCU \<in> flags c then rcu_pending c @ [addr]
    else rcu_pending c)"
  define c' where "c' = c\<lparr>slabs := (slabs c)(sp := None), page_slab := P, rcu_pending := R\<rparr>"
  note d = heap_inv_butD [OF but s]
  from d(2) have pgs: "\<forall>pg \<in> set (slab_pages c addr). page_slab c pg = Some sp"
    by (simp add: slab_addr_ok_def addr_def)
  then have "kmem_freepages c addr
      = Return (c\<lparr>page_slab := (\<lambda>pg. if pg \<in> set (slab_pages c addr) then None
                                        else page_slab c pg)\<rparr>)"
    by (subst kmem_freepages_eq) simp
  then have run: "slab_destroy c sp = Return c'"
    using s by (simp add: slab_destroy_def obind_def get_slab_def Let_def c'_def P_def R_def
        addr_def)
  have page: "page_slab c' pg = page_slab c pg
      \<or> (page_slab c pg = Some sp \<and> page_slab c' pg = None)" for pg
    using pgs by (simp add: c'_def P_def)
  have sl: "slabs c' = (slabs c)(sp := None)"
    by (simp add: c'_def)
  have nl: "nodelists c' = nodelists c" and ar: "array c' = array c"
    by (simp_all add: c'_def)
  have st: "buffer_size c' = buffer_size c" "num c' = num c"
    by (simp_all add: c'_def)
  have "heap_inv c'"
    unfolding heap_inv_def
  proof (intro conjI allI impI)
    show "geom_ok c'"
      using but by (simp add: heap_inv_but_def c'_def)
  next
    fix sp' t assume "slabs c' sp' = Some t"
    then have ne: "sp' \<noteq> sp" and t: "slabs c sp' = Some t"
      by (auto simp: sl split: if_splits)
    note e = heap_inv_butD [OF but t]
    show "slab_ok c' t"
      using e(1) by (simp add: c'_def)
    have keep: "page_slab c' pg = Some sp'" if "page_slab c pg = Some sp'" for pg
      using page [of pg] that ne by auto
    show "slab_addr_ok c' sp' t"
      using e(2) keep unfolding slab_addr_ok_def virt_to_slab_def
      by (simp add: c'_def)
    show "slab_linked c' sp' t"
      using e(4) [OF ne] by (simp add: slab_linked_def c'_def)
  next
    fix n l k assume "nodelists c' n = Some l"
    then have l: "nodelists c n = Some l"
      by (simp add: nl)
    show "set (l3_list l k) \<subseteq> dom (slabs c')"
      using heap_inv_but_lists(1) [OF but l, of k] by (auto simp: sl)
    show "distinct (l3_list l k)"
      using heap_inv_but_lists(2) [OF but l] .
    show "colour_next l < colour c' \<or> colour_next l = 0"
      using heap_inv_but_lists(3) [OF but l] by (simp add: c'_def)
  qed
  moreover have "allocated c' objp \<longleftrightarrow> allocated c objp \<and> virt_to_slab c objp \<noteq> Some sp"
    for objp
    using page st by (intro allocated_slab_gone(1) [OF sl]) auto
  moreover have "allocated c' objp \<Longrightarrow> obj_node c' objp = obj_node c objp" for objp
    using page st by (intro allocated_slab_gone(2) [OF sl]) auto
  ultimately show ?thesis
    using run nl ar by blast
qed

lemma free_one_inv:
  assumes inv: "heap_inv c" and al: "allocated c objp" and nd: "obj_node c objp = Some node"
  shows "\<exists>c'. free_one c objp node = Return c' \<and> heap_inv c' \<and> ac_at c' = ac_at c
      \<and> (\<forall>p. allocated c' p \<longleftrightarrow> allocated c p \<and> p \<noteq> objp)
      \<and> (\<forall>p. allocated c' p \<longrightarrow> obj_node c' p = obj_node c p)"
proof -
  from al obtain sp s where sp: "virt_to_slab c objp = Some sp" and s: "slabs c sp = Some s"
    and idx: "obj_to_index c s objp < num c"
    and canon: "index_to_obj c s (obj_to_index c s objp) = objp"
    and nf: "obj_to_index c s objp \<notin> set (free_idxs c s)"
    and on: "obj_node c objp = Some (nodeid s)"
    by (rule allocatedE)
  from nd on have node: "nodeid s = node"
    by simp
  note d = heap_invD [OF inv s]
  from heap_inv_geom [OF inv] have lim: "num c \<le> SLAB_LIMIT"
    by (simp add: geom_ok_def)
  from slab_put_obj_ok [OF d(1) idx nf lim] obtain s' where put: "slab_put_obj c s objp = Return s'"
    and s': "s' = s\<lparr>bufctl := (bufctl s)[unat (obj_to_index c s objp) := free s],
                   free := obj_to_index c s objp, inuse := inuse s - 1\<rparr>"
    and ok': "slab_ok c s'" and fr': "free_idxs c s' = obj_to_index c s objp # free_idxs c s"
    and dec: "unat (inuse s') + 1 = unat (inuse s)"
    by blast
  have same: "s_mem s' = s_mem s" "colouroff s' = colouroff s" "nodeid s' = nodeid s"
    by (simp_all add: s')
  from heap_inv_linked_node [OF inv s] node obtain l3 where l3: "nodelists c node = Some l3"
    by auto
  define c1 where "c1 = set_slab (list_del sp c) sp s'"
  have but: "heap_inv_but c1 sp"
    unfolding c1_def
  proof (rule heap_inv_but_set_slab [OF heap_inv_unlink [OF inv]])
    show "slab_ok (list_del sp c) s'"
      using ok' by (simp add: list_del_def)
    show "slab_addr_ok (list_del sp c) sp s'"
      using d(2) by (simp add: list_del_def slab_addr_ok_same_address [OF same(1,2)])
    show "nodelists (list_del sp c) (nodeid s') \<noteq> None"
      using l3 node same(3) by (simp add: list_del_def)
  qed
  have s1: "slabs c1 sp = Some s'"
    by (simp add: c1_def set_slab_def)
  have n1: "nodelists c1 node = Some (l3_del sp l3)"
    using l3 by (simp add: c1_def upd_defs)
  have al1: "allocated c1 p \<longleftrightarrow> allocated c p \<and> p \<noteq> objp" for p
  proof -
    have "allocated c1 p \<longleftrightarrow>
      (if virt_to_slab c p = Some sp
       then obj_to_index c s p < num c
            \<and> index_to_obj c s (obj_to_index c s p) = p
            \<and> obj_to_index c s p \<notin> set (free_idxs c s')
       else allocated c p)"
      by (rule allocated_slab_upd(1) [OF _ _ _ _ s same(1,3)]) (simp_all add: c1_def upd_defs)
    also have "\<dots> \<longleftrightarrow> allocated c p \<and> p \<noteq> objp"
      using sp s canon by (auto simp: fr' allocated_def)
    finally show ?thesis .
  qed
  have on1: "obj_node c1 p = obj_node c p" for p
    by (rule allocated_slab_upd(2) [OF _ _ _ _ s same(1,3)]) (simp_all add: c1_def upd_defs)
  have put1: "slab_put_obj (list_del sp c) = slab_put_obj c"
    by (simp add: list_del_def)
  have le: "inuse s \<le> num c"
    using slab_ok_inuse_le [OF d(1)] .
  have lt': "unat (inuse s') < unat (num c)"
    using dec le by (simp add: word_le_nat_alt)
  define la where "la = (l3_del sp l3)\<lparr>free_objects := free_objects l3 + 1\<rparr>"
  have run: "free_one c objp node =
     (if inuse s' = 0 then
        if free_objects la > free_limit la
        then slab_destroy (set_l3 c1 node (la\<lparr>free_objects := free_objects la - num c\<rparr>)) sp
        else Return (set_l3 c1 node (la\<lparr>slabs_free := sp # slabs_free la\<rparr>))
      else Return (set_l3 c1 node (la\<lparr>slabs_partial := slabs_partial la @ [sp]\<rparr>)))"
    using sp s put n1 unfolding c1_def [symmetric] la_def
    by (simp add: free_one_def obind_def get_slab_def get_l3_def Let_def put1 c1_def [symmetric])
      (simp add: c1_def upd_defs)
  have lists_d: "set (l3_list (l3_del sp l3) k) \<subseteq> dom (slabs c1) - {sp}"
    "distinct (l3_list (l3_del sp l3) k)" for k
    using heap_inv_but_lists(1,2) [OF but n1] by auto
  have ld: "distinct (slabs_partial (l3_del sp l3))" "distinct (slabs_full (l3_del sp l3))"
    "distinct (slabs_free (l3_del sp l3))" "sp \<notin> set (slabs_partial (l3_del sp l3))"
    "sp \<notin> set (slabs_free (l3_del sp l3))"
    using lists_d [of OnPartial] lists_d [of OnFull] lists_d [of OnFree]
    by (auto simp: l3_list_def)
  have col: "colour_next (l3_del sp l3) < colour c1 \<or> colour_next (l3_del sp l3) = 0"
    using heap_inv_but_lists(3) [OF but n1] .
  have acat: "ac_at (set_l3 c1 node l') = ac_at c"
    if "shared l' = shared l3" and "alien l' = alien l3" for l'
    using that l3
    by (intro ac_at_cong) (auto simp: c1_def upd_defs option.map_comp comp_def map_option_case
        split: option.splits)
  have fin: "\<exists>c'. Return (set_l3 c1 node l') = Return c' \<and> heap_inv c' \<and> ac_at c' = ac_at c
      \<and> (\<forall>p. allocated c' p \<longleftrightarrow> allocated c p \<and> p \<noteq> objp)
      \<and> (\<forall>p. allocated c' p \<longrightarrow> obj_node c' p = obj_node c p)"
    if "heap_inv (set_l3 c1 node l')" and "shared l' = shared l3" and "alien l' = alien l3" for l'
    using that acat [of l'] al1 on1 by (simp add: set_l3_def)
  show ?thesis
  proof (cases "inuse s' = 0")
    case False
    have k: "list_of_inuse c1 s' = OnPartial"
      using False lt' by (auto simp: list_of_inuse_def c1_def upd_defs word_unat_eq_iff)
    have "heap_inv (set_l3 c1 (nodeid s') (la\<lparr>slabs_partial := slabs_partial la @ [sp]\<rparr>))"
    proof (rule heap_inv_relink [OF but s1])
      show "nodelists c1 (nodeid s') = Some (l3_del sp l3)"
        using n1 node same(3) by simp
      show "\<forall>k. set (l3_list (la\<lparr>slabs_partial := slabs_partial la @ [sp]\<rparr>) k)
          = set (l3_list (l3_del sp l3) k) \<union> (if k = list_of_inuse c1 s' then {sp} else {})"
        by (auto simp: k la_def l3_list_def split: slab_list.splits)
      show "\<forall>k. distinct (l3_list (la\<lparr>slabs_partial := slabs_partial la @ [sp]\<rparr>) k)"
        using ld by (auto simp: la_def l3_list_def split: slab_list.splits)
      show "colour_next (la\<lparr>slabs_partial := slabs_partial la @ [sp]\<rparr>) < colour c1
          \<or> colour_next (la\<lparr>slabs_partial := slabs_partial la @ [sp]\<rparr>) = 0"
        using col by (simp add: la_def)
    qed
    then have hi: "heap_inv (set_l3 c1 node (la\<lparr>slabs_partial := slabs_partial la @ [sp]\<rparr>))"
      using node same(3) by simp
    from run False have r: "free_one c objp node
        = Return (set_l3 c1 node (la\<lparr>slabs_partial := slabs_partial la @ [sp]\<rparr>))"
      by simp
    show ?thesis
      unfolding r by (rule fin [OF hi]) (simp_all add: la_def)
  next
    case True
    have k: "list_of_inuse c1 s' = OnFree"
      using True by (simp add: list_of_inuse_def)
    show ?thesis
    proof (cases "free_objects la > free_limit la")
      case False
      have "heap_inv (set_l3 c1 (nodeid s') (la\<lparr>slabs_free := sp # slabs_free la\<rparr>))"
      proof (rule heap_inv_relink [OF but s1])
        show "nodelists c1 (nodeid s') = Some (l3_del sp l3)"
          using n1 node same(3) by simp
        show "\<forall>k. set (l3_list (la\<lparr>slabs_free := sp # slabs_free la\<rparr>) k)
            = set (l3_list (l3_del sp l3) k) \<union> (if k = list_of_inuse c1 s' then {sp} else {})"
          by (auto simp: k la_def l3_list_def split: slab_list.splits)
        show "\<forall>k. distinct (l3_list (la\<lparr>slabs_free := sp # slabs_free la\<rparr>) k)"
          using ld by (auto simp: la_def l3_list_def split: slab_list.splits)
        show "colour_next (la\<lparr>slabs_free := sp # slabs_free la\<rparr>) < colour c1
            \<or> colour_next (la\<lparr>slabs_free := sp # slabs_free la\<rparr>) = 0"
          using col by (simp add: la_def)
      qed
      then have hi: "heap_inv (set_l3 c1 node (la\<lparr>slabs_free := sp # slabs_free la\<rparr>))"
        using node same(3) by simp
      from run True False have r: "free_one c objp node
          = Return (set_l3 c1 node (la\<lparr>slabs_free := sp # slabs_free la\<rparr>))"
        by simp
      show ?thesis
        unfolding r by (rule fin [OF hi]) (simp_all add: la_def)
    next
      case over: True
      define c2 where "c2 = set_l3 c1 node (la\<lparr>free_objects := free_objects la - num c\<rparr>)"
      have but2: "heap_inv_but c2 sp"
        unfolding c2_def using col
        by (intro heap_inv_but_set_l3 [OF but n1]) (simp_all add: la_def)
      have s2: "slabs c2 sp = Some s'"
        using s1 by (simp add: c2_def set_l3_def)
      from heap_inv_destroy [OF but2 s2] obtain c' where
        run2: "slab_destroy c2 sp = Return c'" and inv': "heap_inv c'"
        and nl: "nodelists c' = nodelists c2" and ar: "array c' = array c2"
        and al2: "\<And>p. allocated c' p \<longleftrightarrow> allocated c2 p \<and> virt_to_slab c2 p \<noteq> Some sp"
        and on2: "\<And>p. allocated c' p \<Longrightarrow> obj_node c' p = obj_node c2 p"
        by blast
      have a2: "allocated c2 = allocated c1" and o2: "obj_node c2 = obj_node c1"
        by (simp_all add: c2_def set_l3_def)
      have none: "virt_to_slab c2 p \<noteq> Some sp" if "allocated c2 p" for p
      proof
        assume v: "virt_to_slab c2 p = Some sp"
        from that v s2 have "obj_to_index c2 s' p < num c2"
          and "obj_to_index c2 s' p \<notin> set (free_idxs c2 s')"
          by (auto simp: allocated_def)
        moreover have "slab_ok c2 s'"
          using heap_inv_butD(1) [OF but2 s2] .
        ultimately show False
          using slab_ok_all_free [of c2 s'] True by blast
      qed
      have "ac_at c' = ac_at c2"
        using nl ar by (intro ac_at_cong) simp_all
      also have "\<dots> = ac_at c"
        unfolding c2_def by (rule acat) (simp_all add: la_def)
      finally have "ac_at c' = ac_at c" .
      moreover have "allocated c' p \<longleftrightarrow> allocated c p \<and> p \<noteq> objp" for p
        using al2 [of p] none [of p] al1 [of p] a2 by auto
      moreover have "allocated c' p \<Longrightarrow> obj_node c' p = obj_node c p" for p
        using on2 [of p] o2 on1 [of p] by simp
      moreover from run True over run2 have "free_one c objp node = Return c'"
        by (simp add: c2_def)
      ultimately show ?thesis
        using inv' by blast
    qed
  qed
qed

lemma free_objs_inv:
  assumes "heap_inv c" and "distinct objs"
    and "\<forall>p \<in> set objs. allocated c p \<and> obj_node c p = Some node"
  shows "\<exists>c'. free_objs c objs node = Return c' \<and> heap_inv c' \<and> ac_at c' = ac_at c
      \<and> (\<forall>p. allocated c' p \<longleftrightarrow> allocated c p \<and> p \<notin> set objs)
      \<and> (\<forall>p. allocated c' p \<longrightarrow> obj_node c' p = obj_node c p)"
  using assms
proof (induction objs arbitrary: c)
  case Nil
  then show ?case by simp
next
  case (Cons a objs)
  from Cons.prems have "allocated c a" and "obj_node c a = Some node"
    by simp_all
  from free_one_inv [OF Cons.prems(1) this] obtain c1 where
    run1: "free_one c a node = Return c1" and inv1: "heap_inv c1" and ac1: "ac_at c1 = ac_at c"
    and al1: "\<And>p. allocated c1 p \<longleftrightarrow> allocated c p \<and> p \<noteq> a"
    and on1: "\<And>p. allocated c1 p \<Longrightarrow> obj_node c1 p = obj_node c p"
    by blast
  have "\<forall>p \<in> set objs. allocated c1 p \<and> obj_node c1 p = Some node"
  proof
    fix p assume p: "p \<in> set objs"
    with Cons.prems(2,3) have "allocated c p" and "obj_node c p = Some node" and "p \<noteq> a"
      by auto
    with al1 [of p] on1 [of p] show "allocated c1 p \<and> obj_node c1 p = Some node"
      by simp
  qed
  from Cons.IH [OF inv1 _ this] Cons.prems(2) obtain c' where
    run2: "free_objs c1 objs node = Return c'" and inv2: "heap_inv c'"
    and ac2: "ac_at c' = ac_at c1"
    and al2: "\<And>p. allocated c' p \<longleftrightarrow> allocated c1 p \<and> p \<notin> set objs"
    and on2: "\<And>p. allocated c' p \<Longrightarrow> obj_node c' p = obj_node c1 p"
    by auto
  have "free_objs c (a # objs) node = Return c'"
    using run1 run2 by (simp add: obind_def)
  moreover have "allocated c' p \<longleftrightarrow> allocated c p \<and> p \<notin> set (a # objs)" for p
    using al1 [of p] al2 [of p] by auto
  moreover have "allocated c' p \<Longrightarrow> obj_node c' p = obj_node c p" for p
    using al2 [of p] on1 [of p] on2 [of p] by simp
  ultimately show ?case
    using inv2 ac1 ac2 by auto
qed

section \<open>The arrays\<close>

lemma arrays_inv_ok: "arrays_inv topo c \<longleftrightarrow> arrays_ok topo c (ac_at c)"
  by (simp add: arrays_inv_def arrays_ok_def)

lemma ac_ok_iff:
  "ac_ok topo c loc ac \<longleftrightarrow>
     ac_shape loc ac \<and> distinct (ac_objs ac)
     \<and> (\<forall>p \<in> set (ac_objs ac). allocated c p \<and> obj_node c p = Some (loc_node topo loc))"
  by (auto simp: ac_ok_def ac_shape_def)

lemma arrays_ok_heap:
  assumes "arrays_ok topo c A"
    and "\<And>loc ac p. A loc = Some ac \<Longrightarrow> p \<in> set (ac_objs ac)
           \<Longrightarrow> allocated c' p \<and> obj_node c' p = obj_node c p"
  shows "arrays_ok topo c' A"
  using assms unfolding arrays_ok_def ac_ok_iff by (metis (no_types, lifting))

lemma arrays_ok_upd:
  assumes ok: "arrays_ok topo c A" and shape: "ac_shape loc ac'" and d: "distinct (ac_objs ac')"
    and new: "\<And>p. p \<in> set (ac_objs ac') \<Longrightarrow>
        (\<exists>ac. A loc = Some ac \<and> p \<in> set (ac_objs ac))
        \<or> (allocated c p \<and> obj_node c p = Some (loc_node topo loc)
            \<and> (\<forall>l a. A l = Some a \<longrightarrow> p \<notin> set (ac_objs a)))"
  shows "arrays_ok topo c (A(loc \<mapsto> ac'))"
  unfolding arrays_ok_def
proof (intro conjI allI impI)
  fix l a assume la: "(A(loc \<mapsto> ac')) l = Some a"
  show "ac_ok topo c l a"
  proof (cases "l = loc")
    case True
    with la have [simp]: "a = ac'" by simp
    have "allocated c p \<and> obj_node c p = Some (loc_node topo loc)" if "p \<in> set (ac_objs ac')" for p
      using new [OF that] ok by (auto simp: arrays_ok_def ac_ok_iff)
    with shape d True show ?thesis
      by (simp add: ac_ok_iff)
  next
    case False
    with la ok show ?thesis
      by (simp add: arrays_ok_def)
  qed
next
  fix l a l' a'
  assume h: "(A(loc \<mapsto> ac')) l = Some a \<and> (A(loc \<mapsto> ac')) l' = Some a' \<and> l \<noteq> l'"
  have dis: "set (ac_objs ac') \<inter> set (ac_objs b) = {}" if "A m = Some b" and "m \<noteq> loc" for m b
  proof -
    have "p \<notin> set (ac_objs b)" if p: "p \<in> set (ac_objs ac')" for p
      using new [OF p]
    proof
      assume "\<exists>ac. A loc = Some ac \<and> p \<in> set (ac_objs ac)"
      then obtain ac where "A loc = Some ac" and "p \<in> set (ac_objs ac)"
        by blast
      with ok \<open>A m = Some b\<close> \<open>m \<noteq> loc\<close> show ?thesis
        unfolding arrays_ok_def by (metis disjoint_iff)
    next
      assume "allocated c p \<and> obj_node c p = Some (loc_node topo loc)
            \<and> (\<forall>l a. A l = Some a \<longrightarrow> p \<notin> set (ac_objs a))"
      with \<open>A m = Some b\<close> show ?thesis
        by blast
    qed
    then show ?thesis
      by auto
  qed
  show "set (ac_objs a) \<inter> set (ac_objs a') = {}"
  proof (cases "l = loc")
    case True
    with h have "a = ac'" and "A l' = Some a'" and "l' \<noteq> loc"
      by auto
    with dis show ?thesis
      by simp
  next
    case False
    show ?thesis
    proof (cases "l' = loc")
      case True
      with h False have "a' = ac'" and "A l = Some a"
        by auto
      with dis [OF this(2) False] show ?thesis
        by auto
    next
      case l': False
      with h False ok show ?thesis
        unfolding arrays_ok_def by (metis fun_upd_other)
    qed
  qed
qed

section \<open>The constructor and the content of the objects\<close>








section \<open>The path of an allocation\<close>









lemma constructed_only_refl [simp]: "constructed_only c c"
  unfolding constructed_only_def by (rule exI [of _ "[]"]) simp






section \<open>Shrinking leaves the objects alone\<close>


































end
